theory Spec2Isabelle
  imports Complex_Main "HOL-Library.AList" "HOL-Library.Log_Nat"
begin

section \<open>Data model of the LuckyFive round engine\<close>

text \<open>
  The repository holds three implementations of the same round engine:
  \<^item> the timer-driven engine \<^verbatim>\<open>game/luckyFive.js\<close> (first file of \<^verbatim>\<open>src/unnamed/part_001\<close>),
    whose definitions keep the source's names;
  \<^item> the interval-driven engine (second file of \<^verbatim>\<open>src/unnamed/part_001\<close>), whose
    definitions carry the suffix \<open>_iv\<close>;
  \<^item> the monolithic \<^verbatim>\<open>src/server.js\<close>, whose definitions carry the suffix \<open>_srv\<close> where the
    name is taken by one of the engines.

  Modelling conventions.
  \<^item> Money amounts and timestamps are JavaScript numbers holding whole values; they are
    modelled as \<open>int\<close>. On such values \<^verbatim>\<open>Number(v || 0)\<close> is \<open>v\<close> itself.
  \<^item> A JavaScript object with numeric values (a bet sheet) is an association list in the order
    of \<^verbatim>\<open>Object.entries\<close>; a \<^verbatim>\<open>Map\<close> is an association list in insertion order.
    \<^verbatim>\<open>obj[k] = v\<close> and \<^verbatim>\<open>map.set(k, v)\<close> are \<open>AList.update\<close>: an existing key
    keeps its position, a new key is appended.
  \<^item> The object of incremental bets that \<^verbatim>\<open>place_bet\<close> writes with a key chosen by the client
    is modelled with the values and the inherited properties of a JavaScript object
    (\<open>wagers\<close> below).
  \<^item> Every event handler runs to completion as one step: the awaits inside a handler are not
    interleaved with other handlers, and a call that the source starts without awaiting it
    (the insert of \<^verbatim>\<open>persistRoundStart\<close>) is completed inside the step that starts it. What
    another handler would see between two awaits of a handler is outside this model.
  \<^item> A failing database call is an input of the handler (\<open>fault\<close>): the source catches it,
    rolls the transaction back and reports an error.
\<close>

type_synonym sockid = string
type_synonym sheet = "(string \<times> int) list"

text \<open>\<^verbatim>\<open>obj[k] || 0\<close>: a missing property reads as 0.\<close>

definition obj_get :: "sheet \<Rightarrow> string \<Rightarrow> int" where
  "obj_get ob k = (case map_of ob k of None \<Rightarrow> 0 | Some v \<Rightarrow> v)"

text \<open>
  The object of incremental bets of a connection is an ordinary JavaScript object, created by
  the literal \<^verbatim>\<open>{ line1: 0, ... }\<close> and then written under a key that the client chooses. Its
  own properties hold numbers or, once an inherited property was read, texts. A text is kept as
  the way it was built: \<open>Inherited k\<close> is the text of the value that \<^verbatim>\<open>Object.prototype\<close> has
  under \<open>k\<close> (a function, or the prototype object itself under \<^verbatim>\<open>__proto__\<close>), and
  \<open>Joined t a\<close> is \<open>t\<close> followed by the decimal text of the number \<open>a\<close>. The association
  list holds the own properties in the order of their creation (JavaScript enumerates keys that
  look like array indices first; no statement below depends on the order).
\<close>

datatype jstext = Inherited string | Joined jstext int

datatype jsval = Num int | Text jstext

type_synonym wagers = "(string \<times> jsval) list"

text \<open>The names of the properties of \<^verbatim>\<open>Object.prototype\<close>.\<close>

definition inherited_keys :: "string list" where
  "inherited_keys =
     [''constructor'', ''__defineGetter__'', ''__defineSetter__'', ''hasOwnProperty'',
      ''__lookupGetter__'', ''__lookupSetter__'', ''isPrototypeOf'', ''propertyIsEnumerable'',
      ''toString'', ''valueOf'', ''__proto__'', ''toLocaleString'']"

text \<open>
  The sum of two numbers is a double: a whole number below \<open>2 ^ 53\<close> in magnitude is kept, a
  larger one is rounded to 53 significant bits, to the nearest, ties to the even. (Sums beyond
  the range of doubles, from \<open>2 ^ 1024\<close> on, are not modelled.)
\<close>

definition to_double :: "int \<Rightarrow> int" where
  "to_double x =
     (let m = \<bar>x\<bar> in
      if m < 2 ^ 53 then x
      else
        let e = nat (bitlen m) - 53; q = m div 2 ^ e; r = m mod 2 ^ e; h = 2 ^ e div 2;
            q' = (if h < r \<or> (r = h \<and> odd q) then q + 1 else q)
        in sgn x * (q' * 2 ^ e))"

text \<open>\<^verbatim>\<open>{ line1: 0, line2: 0, line3: 0, line4: 0, line5: 0 }\<close>\<close>

definition zero_sheet :: wagers where
  "zero_sheet = [(''line1'', Num 0), (''line2'', Num 0), (''line3'', Num 0), (''line4'', Num 0),
     (''line5'', Num 0)]"

text \<open>The template string \<^verbatim>\<open>`line${w}`\<close> for a drawn line \<open>w\<close> in 1..5.\<close>

definition line_key :: "nat \<Rightarrow> string" where
  "line_key w =
     (if w = 1 then ''line1'' else if w = 2 then ''line2'' else if w = 3 then ''line3''
      else if w = 4 then ''line4'' else if w = 5 then ''line5'' else ''line?'')"

text \<open>\<^verbatim>\<open>Object.values(bets).reduce((s, v) => s + Number(v || 0), 0)\<close>\<close>

definition sum_values :: "sheet \<Rightarrow> int" where
  "sum_values ob = foldl (\<lambda>s v. s + v) 0 (map snd ob)"

record session =
  userId :: nat
  username :: string
  balance :: int

record snapshot =
  s_userId :: nat
  s_bets :: sheet
  s_totalAmount :: int

datatype timer_kind = TStart | TFreeze | TResult

record round =
  startTime :: int
  freezeTime :: int
  resultTime :: int
  endTime :: int
  persistedRoundId :: "nat option"
  winningLine :: "nat option"
  bets :: "(sockid \<times> wagers) list"
  finalBets :: "(sockid \<times> snapshot) list"
  timers :: "(timer_kind \<times> nat) list"
  startAnnounced :: bool
  freezeAnnounced :: bool

datatype tx_kind = Bet | Win

datatype descr =
    BetDescr string int
  | WinDescr nat "nat option"
  | BetOn string
  | WonOn "nat option"

record ledger_entry =
  tx_user :: nat
  tx_amount :: int
  tx_type :: tx_kind
  tx_descr :: descr

record game_round_row =
  gr_start :: int
  gr_end :: "int option"
  gr_winning_line :: "nat option"

datatype target = Broadcast | To sockid

datatype msg =
    AuthError string
  | Authenticated nat int
  | CurrentState int int int int bool
  | PlaceBetAck wagers
  | PlaceBetAckError string
  | BetError string
  | BetAccepted int
  | StartRound int int int int
  | FreezeBets int int
  | RoundResult int nat int
  | RoundResultTo int nat int int int

datatype fault = NoFault | ConnFault | ReadFault | WriteFault

text \<open>
  The engine's state: the round objects by reference (\<open>rounds\<close>, with \<open>allocated\<close> the next
  fresh reference), the variable \<^verbatim>\<open>currentRound\<close> (a reference), the armed timeouts in firing
  order (due time, timer id, reference of the round the callback closes over, kind), the session
  map, the tables of the database and the messages emitted so far. The fields
  \<open>startAnnounced\<close> and \<open>freezeAnnounced\<close> of a round are the properties
  \<^verbatim>\<open>_startAnnounced\<close> and \<^verbatim>\<open>_freezeAnnounced\<close> that only the interval-driven engine sets;
  \<open>timers\<close>, \<open>pending\<close> and \<open>timer_seq\<close> are used by the timer-driven engine only.
\<close>

record engine =
  rounds :: "nat \<Rightarrow> round"
  currentRound :: nat
  allocated :: nat
  timer_seq :: nat
  pending :: "(int \<times> nat \<times> nat \<times> timer_kind) list"
  userSessions :: "(sockid \<times> session) list"
  users :: "nat \<Rightarrow> (string \<times> int) option"
  transactions :: "ledger_entry list"
  player_bets :: "(nat option \<times> nat \<times> string \<times> int) list"
  game_rounds :: "game_round_row list"
  emitted :: "(target \<times> msg) list"

subsection \<open>Configuration of the timer-driven engine\<close>

definition FREEZE_OFFSET_MS :: int where "FREEZE_OFFSET_MS = 25000"
definition RESULT_OFFSET_MS :: int where "RESULT_OFFSET_MS = 30000"
definition ROUND_DURATION_MS :: int where "ROUND_DURATION_MS = 40000"
definition WIN_MULTIPLIER :: int where "WIN_MULTIPLIER = 5"

text \<open>\<^verbatim>\<open>createRound(startTime)\<close>: \<^verbatim>\<open>startTime || Date.now()\<close> takes the clock when the
  argument is 0.\<close>

definition createRound :: "int \<Rightarrow> int \<Rightarrow> round" where
  "createRound st now =
     (let s = (if st \<noteq> 0 then st else now) in
      \<lparr> startTime = s, freezeTime = s + FREEZE_OFFSET_MS, resultTime = s + RESULT_OFFSET_MS,
        endTime = s + ROUND_DURATION_MS, persistedRoundId = None, winningLine = None,
        bets = [], finalBets = [], timers = [], startAnnounced = False,
        freezeAnnounced = False \<rparr>)"

definition cur :: "engine \<Rightarrow> round" where
  "cur s = rounds s (currentRound s)"

definition emit :: "target \<Rightarrow> msg \<Rightarrow> engine \<Rightarrow> engine" where
  "emit t m s = s\<lparr>emitted := emitted s @ [(t, m)]\<rparr>"

section \<open>Socket handlers of the timer-driven engine\<close>

record bet_data =
  line :: string
  amount :: int
  operation :: string

text \<open>
  The payload of \<^verbatim>\<open>place_bet\<close>: \<open>line\<close> is the property key that the payload's \<^verbatim>\<open>line\<close>
  converts to, \<open>amount\<close> the number \<^verbatim>\<open>Number(amount || 0)\<close>, taken to be whole.
\<close>

text \<open>
  \<^verbatim>\<open>betsObj[line] = (betsObj[line] || 0) + Number(amount || 0)\<close> and \<^verbatim>\<open>betsObj[line] = 0\<close>.
  The read finds the own property, else the inherited one, else \<^verbatim>\<open>undefined\<close>; an own number
  or \<^verbatim>\<open>undefined\<close> gives a numeric sum, an own text or an inherited value (both truthy) gives
  the text followed by the amount. The write creates or replaces the own property, except
  under \<^verbatim>\<open>__proto__\<close>, where the inherited setter ignores a value that is not an object.
\<close>

definition js_assign :: "string \<Rightarrow> jsval \<Rightarrow> wagers \<Rightarrow> wagers" where
  "js_assign k v betsObj =
     (if k = ''__proto__'' \<and> map_of betsObj k = None then betsObj else AList.update k v betsObj)"

definition apply_bet :: "wagers \<Rightarrow> bet_data \<Rightarrow> wagers" where
  "apply_bet betsObj d =
     (if operation d = ''add''
        then js_assign (line d)
               (case map_of betsObj (line d) of
                  Some (Num n) \<Rightarrow> Num (to_double (n + amount d))
                | Some (Text t) \<Rightarrow> Text (Joined t (amount d))
                | None \<Rightarrow>
                    if line d \<in> set inherited_keys then Text (Joined (Inherited (line d)) (amount d))
                    else Num (to_double (0 + amount d)))
               betsObj
      else if operation d = ''remove''
        then js_assign (line d) (Num 0) betsObj
      else betsObj)"

text \<open>
  \<^verbatim>\<open>socket.on("place_bet", (data) => ...)\<close>. \<open>None\<close> is a missing payload
  (\<^verbatim>\<open>data || {}\<close>). Nothing in the body can throw, so the catch branch has no counterpart.
\<close>

definition init_bets :: "(sockid \<times> wagers) list \<Rightarrow> sockid \<Rightarrow> (sockid \<times> wagers) list" where
  "init_bets bm sock =
     (if map_of bm sock = None then AList.update sock zero_sheet bm else bm)"

definition get_bets :: "(sockid \<times> wagers) list \<Rightarrow> sockid \<Rightarrow> wagers" where
  "get_bets bm sock = (case map_of bm sock of Some ob \<Rightarrow> ob | None \<Rightarrow> [])"

definition place_bet :: "engine \<Rightarrow> sockid \<Rightarrow> bet_data option \<Rightarrow> engine" where
  "place_bet s sock dat =
     (let r = cur s;
          bm = init_bets (bets r) sock;
          betsObj = get_bets bm sock;
          betsObj' = (case dat of None \<Rightarrow> betsObj | Some d \<Rightarrow> apply_bet betsObj d);
          r' = r\<lparr>bets := AList.update sock betsObj' bm\<rparr>
      in emit (To sock) (PlaceBetAck betsObj')
           (s\<lparr>rounds := (rounds s)(currentRound s := r')\<rparr>))"

record payload =
  p_roundId :: int
  p_bets :: sheet
  p_totalAmount :: "int option"

text \<open>\<^verbatim>\<open>Number(payload.totalAmount || Object.values(bets).reduce(...))\<close>: the client's total
  when it is present and not 0, the sum of the submitted values otherwise.\<close>

definition submitted_total :: "payload \<Rightarrow> int" where
  "submitted_total p =
     (case p_totalAmount p of
        Some t \<Rightarrow> if t \<noteq> 0 then t else sum_values (p_bets p)
      | None \<Rightarrow> sum_values (p_bets p))"

text \<open>The loop over \<^verbatim>\<open>Object.entries(bets)\<close> inside the transaction: one \<^verbatim>\<open>transactions\<close>
  row and one \<^verbatim>\<open>player_bets\<close> row per entry with a positive amount.\<close>

definition bet_entries :: "nat \<Rightarrow> int \<Rightarrow> sheet \<Rightarrow> ledger_entry list" where
  "bet_entries uid st bs =
     map (\<lambda>(l, a). \<lparr> tx_user = uid, tx_amount = a, tx_type = Bet, tx_descr = BetDescr l st \<rparr>)
       (filter (\<lambda>(l, a). \<not> a \<le> 0) bs)"

definition bet_rows :: "nat option \<Rightarrow> nat \<Rightarrow> sheet \<Rightarrow> (nat option \<times> nat \<times> string \<times> int) list" where
  "bet_rows rid uid bs = map (\<lambda>(l, a). (rid, uid, l, a)) (filter (\<lambda>(l, a). \<not> a \<le> 0) bs)"

text \<open>\<^verbatim>\<open>UPDATE users SET balance = balance + ? WHERE id = ?\<close>: no row, no change.\<close>

definition add_balance :: "nat \<Rightarrow> int \<Rightarrow> (nat \<Rightarrow> (string \<times> int) option) \<Rightarrow> (nat \<Rightarrow> (string \<times> int) option)" where
  "add_balance uid d us =
     (case us uid of None \<Rightarrow> us | Some (n, b) \<Rightarrow> us(uid := Some (n, b + d)))"

text \<open>\<^verbatim>\<open>session.balance = b\<close> on the session object stored under \<open>sock\<close>.\<close>

definition set_session_balance :: "sockid \<Rightarrow> int \<Rightarrow> (sockid \<times> session) list \<Rightarrow> (sockid \<times> session) list" where
  "set_session_balance sock b ss =
     (case map_of ss sock of None \<Rightarrow> ss | Some se \<Rightarrow> AList.update sock (se\<lparr>balance := b\<rparr>) ss)"

text \<open>
  \<^verbatim>\<open>socket.on("submit_final_bets", async (payload) => ...)\<close>. The fault says which database call
  throws: \<open>ConnFault\<close> is \<^verbatim>\<open>getConnection\<close>, \<open>ReadFault\<close> the
  \<^verbatim>\<open>SELECT ... FOR UPDATE\<close>, \<open>WriteFault\<close> the update, an insert or the commit; the last two
  are rolled back by the catch of the transaction. The handlers of the two engines differ only in
  the message sent when \<^verbatim>\<open>getConnection\<close> fails (\<open>connmsg\<close>): the timer-driven engine
  reports it from its outer catch. \<open>commit_bets\<close> is the rest of the handler once the checks
  have passed: the debit, the inserts, the commit, the snapshot, the cached balance and the
  acknowledgement. The source stores the snapshot after the awaited commit, in the round that
  \<^verbatim>\<open>currentRound\<close> holds by then; with the handler taken as one step this is the round the
  checks were made on.
\<close>

definition commit_bets :: "engine \<Rightarrow> sockid \<Rightarrow> nat \<Rightarrow> int \<Rightarrow> payload \<Rightarrow> engine" where
  "commit_bets s sock uid currentBalance p =
     (let bs = p_bets p; totalAmount = submitted_total p; r = cur s;
          r' = r\<lparr>finalBets := AList.update sock
                 \<lparr> s_userId = uid, s_bets = bs, s_totalAmount = totalAmount \<rparr> (finalBets r)\<rparr>
      in emit (To sock) (BetAccepted (currentBalance - totalAmount))
           (s\<lparr> users := add_balance uid (- totalAmount) (users s),
               transactions := transactions s @ bet_entries uid (startTime r) bs,
               player_bets := player_bets s @ bet_rows (persistedRoundId r) uid bs,
               rounds := (rounds s)(currentRound s := r'),
               userSessions := set_session_balance sock
                 (currentBalance - totalAmount) (userSessions s) \<rparr>))"

definition submit_core :: "string \<Rightarrow> engine \<Rightarrow> sockid \<Rightarrow> payload \<Rightarrow> fault \<Rightarrow> engine" where
  "submit_core connmsg s sock p flt =
     (case map_of (userSessions s) sock of
        None \<Rightarrow> emit (To sock) (BetError ''Not authenticated'') s
      | Some sess \<Rightarrow>
          if userId sess = 0 then emit (To sock) (BetError ''Not authenticated'') s
          else if p_roundId p \<noteq> startTime (cur s) then emit (To sock) (BetError ''Round mismatch'') s
          else if flt = ConnFault then emit (To sock) (BetError connmsg) s
          else if flt = ReadFault then emit (To sock) (BetError ''Server DB error'') s
          else
            (case users s (userId sess) of
               None \<Rightarrow> emit (To sock) (BetError ''User not found'') s
             | Some (uname, currentBalance) \<Rightarrow>
                 if currentBalance < submitted_total p
                   then emit (To sock) (BetError ''Insufficient balance'') s
                 else if flt = WriteFault then emit (To sock) (BetError ''Server DB error'') s
                 else commit_bets s sock (userId sess) currentBalance p))"

definition submit_final_bets :: "engine \<Rightarrow> sockid \<Rightarrow> payload \<Rightarrow> fault \<Rightarrow> engine" where
  "submit_final_bets = submit_core ''Server error''"

datatype token = NoToken | BadToken | Token nat

text \<open>
  \<^verbatim>\<open>socket.on("authenticate", async (token) => ...)\<close>. \<open>Token uid\<close> is a token that
  \<^verbatim>\<open>jwt.verify\<close> accepts and that carries the user id \<open>uid\<close>; \<open>BadToken\<close> is one it
  throws on. A database failure is caught by the same catch as a bad token.
\<close>

definition authenticate :: "engine \<Rightarrow> sockid \<Rightarrow> token \<Rightarrow> fault \<Rightarrow> engine" where
  "authenticate s sock tok flt =
     (case tok of
        NoToken \<Rightarrow> emit (To sock) (AuthError ''No token'') s
      | BadToken \<Rightarrow> emit (To sock) (AuthError ''Invalid token'') s
      | Token uid \<Rightarrow>
          if flt \<noteq> NoFault then emit (To sock) (AuthError ''Invalid token'') s
          else
            (case users s uid of
               None \<Rightarrow> emit (To sock) (AuthError ''User not found'') s
             | Some (uname, b) \<Rightarrow>
                 emit (To sock) (Authenticated uid b)
                   (s\<lparr>userSessions := AList.update sock
                        \<lparr> userId = uid, username = uname, balance = b \<rparr> (userSessions s)\<rparr>)))"

text \<open>\<^verbatim>\<open>socket.on("join_game", ...)\<close>\<close>

definition join_game :: "engine \<Rightarrow> sockid \<Rightarrow> int \<Rightarrow> engine" where
  "join_game s sock now =
     emit (To sock)
       (CurrentState (startTime (cur s)) now (max 0 (freezeTime (cur s) - now))
          (max 0 (resultTime (cur s) - now)) (\<not> now \<ge> freezeTime (cur s))) s"

text \<open>\<^verbatim>\<open>socket.on("disconnect", ...)\<close>\<close>

definition disconnect :: "engine \<Rightarrow> sockid \<Rightarrow> engine" where
  "disconnect s sock = s\<lparr>userSessions := AList.delete sock (userSessions s)\<rparr>"

section \<open>Scheduling of the timer-driven engine\<close>

text \<open>
  \<^verbatim>\<open>setTimeout(cb, delay)\<close> at clock \<open>now\<close>: the timeout is due at \<open>now + delay\<close> and runs
  after every timeout that is due no later and was armed before it.
\<close>

fun arm :: "(int \<times> nat \<times> nat \<times> timer_kind) \<Rightarrow> (int \<times> nat \<times> nat \<times> timer_kind) list
              \<Rightarrow> (int \<times> nat \<times> nat \<times> timer_kind) list" where
  "arm t [] = [t]"
| "arm t (x # xs) = (if fst x \<le> fst t then x # arm t xs else t # x # xs)"

definition setTimeout :: "engine \<Rightarrow> nat \<Rightarrow> timer_kind \<Rightarrow> int \<Rightarrow> int \<Rightarrow> engine" where
  "setTimeout s g k delay now =
     (let i = timer_seq s; r = rounds s g in
      s\<lparr> timer_seq := Suc i,
         pending := arm (now + delay, i, g, k) (pending s),
         rounds := (rounds s)(g := r\<lparr>timers := AList.update k i (timers r)\<rparr>) \<rparr>)"

definition scheduleRoundTimers :: "engine \<Rightarrow> nat \<Rightarrow> int \<Rightarrow> engine" where
  "scheduleRoundTimers s g now =
     (let r = rounds s g;
          startDelay = max 0 (startTime r - now);
          s1 = setTimeout s g TStart startDelay now;
          freezeDelay = max 0 (freezeTime r - now);
          s2 = setTimeout s1 g TFreeze freezeDelay now;
          resultDelay = max 0 (resultTime r - now)
      in setTimeout s2 g TResult resultDelay now)"

text \<open>\<^verbatim>\<open>clearRoundTimers(round)\<close>: every id held in \<^verbatim>\<open>round.timers\<close> is cleared.\<close>

definition clearRoundTimers :: "engine \<Rightarrow> nat \<Rightarrow> engine" where
  "clearRoundTimers s g =
     (let r = rounds s g in
      s\<lparr> pending := filter (\<lambda>(due, i, g', k). i \<notin> snd ` set (timers r)) (pending s),
         rounds := (rounds s)(g := r\<lparr>timers := []\<rparr>) \<rparr>)"

text \<open>
  \<^verbatim>\<open>persistRoundStart(round)\<close>; a failure is caught and logged. Both engines start it without
  awaiting it when they announce the start of a round; it is completed inside that step, which
  is what happens when the result of the round is persisted in a later step. (A tick of the
  interval-driven engine that announces the start of a round and draws its line at once finds
  no row id yet when it persists the result, and inserts a second row: on such a tick the
  table \<^verbatim>\<open>game_rounds\<close> of the code differs from the one computed here.)
\<close>

definition persistRoundStart :: "engine \<Rightarrow> nat \<Rightarrow> fault \<Rightarrow> engine" where
  "persistRoundStart s g flt =
     (if flt \<noteq> NoFault then s
      else
        let r = rounds s g; insertId = Suc (length (game_rounds s)) in
        s\<lparr> game_rounds := game_rounds s @
              [\<lparr> gr_start = startTime r, gr_end = None, gr_winning_line = None \<rparr>],
           rounds := (rounds s)(g := r\<lparr>persistedRoundId := Some insertId\<rparr>) \<rparr>)"

text \<open>\<^verbatim>\<open>persistRoundResult(round)\<close>: the fallback insert when the round has no row yet, the
  update of its row otherwise; a failure is caught and logged.\<close>

definition persistRoundResult :: "engine \<Rightarrow> nat \<Rightarrow> fault \<Rightarrow> engine" where
  "persistRoundResult s g flt =
     (if flt \<noteq> NoFault then s
      else
        let r = rounds s g in
        (case persistedRoundId r of
           None \<Rightarrow>
             s\<lparr> game_rounds := game_rounds s @
                   [\<lparr> gr_start = startTime r, gr_end = Some (endTime r),
                      gr_winning_line = winningLine r \<rparr>],
                rounds := (rounds s)(g := r\<lparr>persistedRoundId := Some (Suc (length (game_rounds s)))\<rparr>) \<rparr>
         | Some rid \<Rightarrow>
             if rid = 0 \<or> length (game_rounds s) < rid then s
             else s\<lparr> game_rounds := (game_rounds s)[rid - 1 :=
                        (game_rounds s ! (rid - 1))\<lparr> gr_end := Some (endTime r),
                                                    gr_winning_line := winningLine r \<rparr>] \<rparr>))"

definition emitStartRound :: "engine \<Rightarrow> nat \<Rightarrow> int \<Rightarrow> fault \<Rightarrow> engine" where
  "emitStartRound s g now flt =
     (let r = rounds s g in
      persistRoundStart
        (emit Broadcast
           (StartRound (startTime r) now (max 0 (freezeTime r - now)) (max 0 (resultTime r - now))) s)
        g flt)"

definition emitFreezeBets :: "engine \<Rightarrow> nat \<Rightarrow> int \<Rightarrow> engine" where
  "emitFreezeBets s g now = emit Broadcast (FreezeBets (startTime (rounds s g)) now) s"

text \<open>
  \<^verbatim>\<open>Math.floor(Math.random() * 5) + 1\<close>. The code takes the floor of the product as a double;
  \<open>u\<close> is a fifth of that double, a real number with \<open>0 \<le> u < 1\<close> whose product with 5 is
  the double itself. (Where the product of the random number with 5 is exact, \<open>u\<close> is the
  random number.)
\<close>

definition draw_line :: "real \<Rightarrow> nat" where
  "draw_line u = nat \<lfloor>u * 5\<rfloor> + 1"

text \<open>\<^verbatim>\<open>round.persistedRoundId || round.startTime\<close>\<close>

definition result_round_id :: "round \<Rightarrow> int" where
  "result_round_id r =
     (case persistedRoundId r of None \<Rightarrow> startTime r
      | Some rid \<Rightarrow> if rid \<noteq> 0 then int rid else startTime r)"

text \<open>The loop over \<^verbatim>\<open>userSessions.entries()\<close> that stops at the first session of the user
  (the same loop is in \<^verbatim>\<open>src/server.js\<close>, over its sessions).\<close>

definition first_session ::
  "(sockid \<times> 'a session_scheme) list \<Rightarrow> nat \<Rightarrow> (sockid \<times> 'a session_scheme) option" where
  "first_session ss uid = find (\<lambda>(sId, se). userId se = uid) ss"

text \<open>
  The targeted notification of one payee. \<open>ReadFault\<close> is a failing
  \<^verbatim>\<open>SELECT balance\<close>, which leaves the loop body through the inner catch; the query is only
  run once a session of the user is found.
\<close>

definition notify_payee :: "engine \<Rightarrow> int \<Rightarrow> nat \<Rightarrow> nat \<Rightarrow> int \<Rightarrow> int \<Rightarrow> fault \<Rightarrow> engine" where
  "notify_payee s rid w uid winAmount now flt =
     (case first_session (userSessions s) uid of
        None \<Rightarrow> s
      | Some (sId, se) \<Rightarrow>
          if flt = ReadFault then s
          else
            let newBalance = (case users s uid of None \<Rightarrow> balance se | Some (n, b) \<Rightarrow> b) in
            (emit (To sId) (RoundResultTo rid w winAmount newBalance now) s)
              \<lparr>userSessions := AList.update sId (se\<lparr>balance := newBalance\<rparr>) (userSessions s)\<rparr>)"

text \<open>The payout transaction of one snapshot: the credit and the \<^verbatim>\<open>win\<close> row, when the
  amount won is positive and nothing in the transaction fails.\<close>

definition credit_win :: "engine \<Rightarrow> nat \<Rightarrow> nat \<Rightarrow> nat option \<Rightarrow> int \<Rightarrow> fault \<Rightarrow> engine" where
  "credit_win s uid w rid winAmount flt =
     (if winAmount > 0 \<and> flt \<noteq> WriteFault
        then s\<lparr> users := add_balance uid winAmount (users s),
                transactions := transactions s @
                  [\<lparr> tx_user = uid, tx_amount = winAmount, tx_type = Win, tx_descr = WinDescr w rid \<rparr>] \<rparr>
      else s)"

text \<open>
  One iteration of the loop over \<^verbatim>\<open>round.finalBets.entries()\<close> in
  \<^verbatim>\<open>emitRoundResultAndProcess(round)\<close>. \<open>ConnFault\<close> is a failing \<^verbatim>\<open>getConnection\<close>, which
  skips the snapshot altogether.
\<close>

definition win_amount :: "snapshot \<Rightarrow> nat \<Rightarrow> int" where
  "win_amount snap w = obj_get (s_bets snap) (line_key w) * WIN_MULTIPLIER"

definition payout_one :: "nat \<Rightarrow> nat \<Rightarrow> int \<Rightarrow> (sockid \<Rightarrow> fault) \<Rightarrow> engine \<Rightarrow> (sockid \<times> snapshot) \<Rightarrow> engine" where
  "payout_one g w now flts s e =
     (let socketId = fst e; snap = snd e; uid = s_userId snap; flt = flts socketId in
      if uid = 0 then s
      else if flt = ConnFault then s
      else
        let winAmount = win_amount snap w;
            s1 = credit_win s uid w (persistedRoundId (rounds s g)) winAmount flt
        in notify_payee s1 (result_round_id (rounds s1 g)) w uid winAmount now flt)"

text \<open>
  \<^verbatim>\<open>emitRoundResultAndProcess(round)\<close>, the callback of the result timer. \<open>u\<close> is the random
  number, \<open>now\<close> the clock during the processing, \<open>now2\<close> the clock in the \<^verbatim>\<open>finally\<close>
  block, \<open>pflt\<close> the fault of \<^verbatim>\<open>persistRoundResult\<close>, \<open>flts\<close> the fault of each snapshot's
  payout.
\<close>

definition settle :: "engine \<Rightarrow> nat \<Rightarrow> real \<Rightarrow> int \<Rightarrow> fault \<Rightarrow> (sockid \<Rightarrow> fault) \<Rightarrow> engine" where
  "settle s g u now pflt flts =
     (let w = draw_line u;
          s1 = s\<lparr>rounds := (rounds s)(g := (rounds s g)\<lparr>winningLine := Some w\<rparr>)\<rparr>;
          s2 = persistRoundResult s1 g pflt;
          s3 = foldl (payout_one g w now flts) s2 (finalBets (rounds s2 g))
      in emit Broadcast (RoundResult (result_round_id (rounds s3 g)) w now) s3)"

definition rollover :: "engine \<Rightarrow> nat \<Rightarrow> int \<Rightarrow> engine" where
  "rollover s g now2 =
     (let nextStart = startTime (rounds s g) + ROUND_DURATION_MS;
          s1 = clearRoundTimers s g;
          nextRound = createRound nextStart now2;
          ref = allocated s1;
          s2 = s1\<lparr> rounds := (rounds s1)(ref := nextRound), allocated := Suc ref,
                  currentRound := ref \<rparr>
      in scheduleRoundTimers s2 (currentRound s2) now2)"

definition emitRoundResultAndProcess ::
  "engine \<Rightarrow> nat \<Rightarrow> real \<Rightarrow> int \<Rightarrow> int \<Rightarrow> fault \<Rightarrow> (sockid \<Rightarrow> fault) \<Rightarrow> engine" where
  "emitRoundResultAndProcess s g u now now2 pflt flts = rollover (settle s g u now pflt flts) g now2"

text \<open>
  The start of the engine: \<^verbatim>\<open>let currentRound = createRound(Date.now())\<close> at clock \<open>t0\<close>, then
  \<^verbatim>\<open>bootstrap()\<close> at clock \<open>now\<close>, on a database holding the given tables.
\<close>

definition bootstrap ::
  "(nat \<Rightarrow> (string \<times> int) option) \<Rightarrow> ledger_entry list \<Rightarrow> (nat option \<times> nat \<times> string \<times> int) list
     \<Rightarrow> game_round_row list \<Rightarrow> int \<Rightarrow> int \<Rightarrow> engine" where
  "bootstrap us txs pbs grs t0 now =
     (let r0 = createRound t0 t0;
          r1 = (if startTime r0 + ROUND_DURATION_MS \<le> now
                then createRound
                       (startTime r0 + ((now - startTime r0) div ROUND_DURATION_MS + 1) * ROUND_DURATION_MS)
                       now
                else r0);
          s = \<lparr> rounds = (\<lambda>_. r1), currentRound = 0, allocated = 1, timer_seq = 0, pending = [],
                userSessions = [], users = us, transactions = txs, player_bets = pbs,
                game_rounds = grs, emitted = [] \<rparr>
      in scheduleRoundTimers s (currentRound s) now)"

text \<open>
  The events of a run. \<open>Fire\<close> runs the callback of the first armed timeout once the clock has
  reached its due time.
\<close>

datatype event =
    Fire int real int fault "sockid \<Rightarrow> fault"
  | OnAuthenticate sockid token fault
  | OnJoinGame sockid int
  | OnPlaceBet sockid "bet_data option"
  | OnSubmitFinalBets sockid payload fault
  | OnDisconnect sockid

definition fire :: "engine \<Rightarrow> int \<Rightarrow> real \<Rightarrow> int \<Rightarrow> fault \<Rightarrow> (sockid \<Rightarrow> fault) \<Rightarrow> engine" where
  "fire s now u now2 pflt flts =
     (case pending s of
        [] \<Rightarrow> s
      | (due, i, g, k) # q \<Rightarrow>
          if now < due then s
          else
            let s1 = s\<lparr>pending := q\<rparr> in
            (case k of
               TStart \<Rightarrow> emitStartRound s1 g now pflt
             | TFreeze \<Rightarrow> emitFreezeBets s1 g now
             | TResult \<Rightarrow> emitRoundResultAndProcess s1 g u now now2 pflt flts))"

fun step :: "engine \<Rightarrow> event \<Rightarrow> engine" where
  "step s (Fire now u now2 pflt flts) = fire s now u now2 pflt flts"
| "step s (OnAuthenticate sock tok flt) = authenticate s sock tok flt"
| "step s (OnJoinGame sock now) = join_game s sock now"
| "step s (OnPlaceBet sock dat) = place_bet s sock dat"
| "step s (OnSubmitFinalBets sock p flt) = submit_final_bets s sock p flt"
| "step s (OnDisconnect sock) = disconnect s sock"

text \<open>\<^verbatim>\<open>Math.random()\<close> returns a number in the interval from 0 (included) to 1 (excluded).\<close>

fun wf_event :: "event \<Rightarrow> bool" where
  "wf_event (Fire now u now2 pflt flts) = (0 \<le> u \<and> u < 1)"
| "wf_event _ = True"

text \<open>The engine starts at a clock after the epoch: \<^verbatim>\<open>Date.now()\<close> is positive.\<close>

inductive reachable :: "engine \<Rightarrow> bool" where
  reach_start: "0 < t0 \<Longrightarrow> reachable (bootstrap us txs pbs grs t0 now)"
| reach_step: "reachable s \<Longrightarrow> wf_event e \<Longrightarrow> reachable (step s e)"



section \<open>The interval-driven engine\<close>

definition ROUND_DURATION_MS_iv :: int where "ROUND_DURATION_MS_iv = 30000"
definition FREEZE_OFFSET_MS_iv :: int where "FREEZE_OFFSET_MS_iv = 25000"
definition RESULT_OFFSET_MS_iv :: int where "RESULT_OFFSET_MS_iv = 27000"

text \<open>\<^verbatim>\<open>createRound()\<close> of the interval-driven engine takes no argument: the round starts at
  \<^verbatim>\<open>Date.now()\<close>.\<close>

definition createRound_iv :: "int \<Rightarrow> round" where
  "createRound_iv now =
     \<lparr> startTime = now, freezeTime = now + FREEZE_OFFSET_MS_iv,
       resultTime = now + RESULT_OFFSET_MS_iv, endTime = now + ROUND_DURATION_MS_iv,
       persistedRoundId = None, winningLine = None, bets = [], finalBets = [], timers = [],
       startAnnounced = False, freezeAnnounced = False \<rparr>"

definition upd_cur :: "(round \<Rightarrow> round) \<Rightarrow> engine \<Rightarrow> engine" where
  "upd_cur f s = s\<lparr>rounds := (rounds s)(currentRound s := f (cur s))\<rparr>"

text \<open>\<^verbatim>\<open>!currentRound.winningLine\<close>: no line yet (0 is falsy as well).\<close>

definition no_winner :: "round \<Rightarrow> bool" where
  "no_winner r = (case winningLine r of None \<Rightarrow> True | Some w \<Rightarrow> w = 0)"

text \<open>
  The synchronous part of one run of the \<^verbatim>\<open>setInterval\<close> callback at clock \<open>now\<close>: the
  three guarded announcements, the last of which draws the winning line and starts the
  asynchronous processing of the result.
\<close>

definition tick_start_iv :: "engine \<Rightarrow> int \<Rightarrow> fault \<Rightarrow> engine" where
  "tick_start_iv s now pflt =
     (if \<not> startAnnounced (cur s) \<and> now \<ge> startTime (cur s)
        then
          let s1 = upd_cur (\<lambda>r. r\<lparr>startAnnounced := True\<rparr>) s;
              s2 = persistRoundStart s1 (currentRound s1) pflt
          in emit Broadcast
               (StartRound (startTime (cur s2)) now (max 0 (freezeTime (cur s2) - now))
                  (max 0 (resultTime (cur s2) - now))) s2
      else s)"

definition tick_freeze_iv :: "engine \<Rightarrow> int \<Rightarrow> engine" where
  "tick_freeze_iv s now =
     (if \<not> freezeAnnounced (cur s) \<and> now \<ge> freezeTime (cur s)
        then emit Broadcast (FreezeBets (startTime (cur s)) now)
               (upd_cur (\<lambda>r. r\<lparr>freezeAnnounced := True\<rparr>) s)
      else s)"

definition tick_result_iv :: "engine \<Rightarrow> int \<Rightarrow> real \<Rightarrow> engine" where
  "tick_result_iv s now u =
     (if no_winner (cur s) \<and> now \<ge> resultTime (cur s)
        then upd_cur (\<lambda>r. r\<lparr>winningLine := Some (draw_line u)\<rparr>) s
      else s)"

definition tick_iv :: "engine \<Rightarrow> int \<Rightarrow> real \<Rightarrow> fault \<Rightarrow> engine" where
  "tick_iv s now u pflt = tick_result_iv (tick_freeze_iv (tick_start_iv s now pflt) now) now u"

text \<open>
  The asynchronous block started by the draw: the result is persisted, every snapshot is paid
  (the loop body is the one of the timer-driven engine, \<open>payout_one\<close>, with the same
  multiplier 5), and the \<^verbatim>\<open>finally\<close> block replaces the round by \<^verbatim>\<open>createRound()\<close> at clock
  \<open>now2\<close>. The block runs once for each draw; until it ends, further ticks see the line set.
\<close>

definition finish_result_iv :: "engine \<Rightarrow> int \<Rightarrow> int \<Rightarrow> fault \<Rightarrow> (sockid \<Rightarrow> fault) \<Rightarrow> engine" where
  "finish_result_iv s now now2 pflt flts =
     (case winningLine (cur s) of
        None \<Rightarrow> s
      | Some w \<Rightarrow>
          let g = currentRound s;
              s2 = persistRoundResult s g pflt;
              s3 = foldl (payout_one g w now flts) s2 (finalBets (rounds s2 g));
              ref = allocated s3
          in s3\<lparr> rounds := (rounds s3)(ref := createRound_iv now2), allocated := Suc ref,
                 currentRound := ref \<rparr>)"

text \<open>\<^verbatim>\<open>place_bet\<close> of the interval-driven engine destructures \<^verbatim>\<open>data\<close> without a default:
  a missing payload throws after the sheet was initialised, and the catch acknowledges a failure.\<close>

definition place_bet_iv :: "engine \<Rightarrow> sockid \<Rightarrow> bet_data option \<Rightarrow> engine" where
  "place_bet_iv s sock dat =
     (let r = cur s;
          bm = init_bets (bets r) sock;
          betsObj = get_bets bm sock
      in case dat of
           None \<Rightarrow> emit (To sock) (PlaceBetAckError ''server error'')
                     (s\<lparr>rounds := (rounds s)(currentRound s := r\<lparr>bets := bm\<rparr>)\<rparr>)
         | Some d \<Rightarrow>
             let betsObj' = apply_bet betsObj d;
                 r' = r\<lparr>bets := AList.update sock betsObj' bm\<rparr>
             in emit (To sock) (PlaceBetAck betsObj')
                  (s\<lparr>rounds := (rounds s)(currentRound s := r')\<rparr>))"

definition submit_final_bets_iv :: "engine \<Rightarrow> sockid \<Rightarrow> payload \<Rightarrow> fault \<Rightarrow> engine" where
  "submit_final_bets_iv = submit_core ''Server DB error''"

definition join_game_iv :: "engine \<Rightarrow> sockid \<Rightarrow> int \<Rightarrow> engine" where
  "join_game_iv s sock now =
     emit (To sock)
       (CurrentState (startTime (cur s)) now (max 0 (freezeTime (cur s) - now))
          (max 0 (resultTime (cur s) - now)) (\<not> freezeAnnounced (cur s))) s"

definition init_iv ::
  "(nat \<Rightarrow> (string \<times> int) option) \<Rightarrow> ledger_entry list \<Rightarrow> (nat option \<times> nat \<times> string \<times> int) list
     \<Rightarrow> game_round_row list \<Rightarrow> int \<Rightarrow> engine" where
  "init_iv us txs pbs grs t0 =
     \<lparr> rounds = (\<lambda>_. createRound_iv t0), currentRound = 0, allocated = 1, timer_seq = 0,
       pending = [], userSessions = [], users = us, transactions = txs, player_bets = pbs,
       game_rounds = grs, emitted = [] \<rparr>"

datatype event_iv =
    Tick int real fault
  | FinishResult int int fault "sockid \<Rightarrow> fault"
  | OnAuthenticate_iv sockid token fault
  | OnJoinGame_iv sockid int
  | OnPlaceBet_iv sockid "bet_data option"
  | OnSubmitFinalBets_iv sockid payload fault
  | OnDisconnect_iv sockid

fun step_iv :: "engine \<Rightarrow> event_iv \<Rightarrow> engine" where
  "step_iv s (Tick now u pflt) = tick_iv s now u pflt"
| "step_iv s (FinishResult now now2 pflt flts) = finish_result_iv s now now2 pflt flts"
| "step_iv s (OnAuthenticate_iv sock tok flt) = authenticate s sock tok flt"
| "step_iv s (OnJoinGame_iv sock now) = join_game_iv s sock now"
| "step_iv s (OnPlaceBet_iv sock dat) = place_bet_iv s sock dat"
| "step_iv s (OnSubmitFinalBets_iv sock p flt) = submit_final_bets_iv s sock p flt"
| "step_iv s (OnDisconnect_iv sock) = disconnect s sock"

fun wf_event_iv :: "event_iv \<Rightarrow> bool" where
  "wf_event_iv (Tick now u pflt) = (0 \<le> u \<and> u < 1)"
| "wf_event_iv _ = True"

inductive reachable_iv :: "engine \<Rightarrow> bool" where
  reach_init_iv: "0 < t0 \<Longrightarrow> reachable_iv (init_iv us txs pbs grs t0)"
| reach_step_iv: "reachable_iv s \<Longrightarrow> wf_event_iv e \<Longrightarrow> reachable_iv (step_iv s e)"

section \<open>The monolithic server\<close>

text \<open>
  The state of \<^verbatim>\<open>src/server.js\<close>: the variable \<^verbatim>\<open>currentRound\<close> holding an object of the class
  \<^verbatim>\<open>GameRound\<close>, the session map, the tables of the database and the messages emitted so far.
  The random \<^verbatim>\<open>matrix\<close> of a round and the fields \<^verbatim>\<open>matrix\<close> and \<^verbatim>\<open>timeRemaining\<close> of the
  messages are display data and are left out. The identifier \<^verbatim>\<open>`R${Date.now()}`\<close> of a round is modelled by
  the clock value it is built from. \<^verbatim>\<open>socket.userId\<close> is written together with the session of
  the connection and both live as long as the connection: it is read from the session.
\<close>

record round_srv =
  id_srv :: int
  startTime_srv :: int
  freezeTime_srv :: int
  endTime_srv :: int
  nextRoundTime_srv :: int
  isBettingOpen :: bool
  winningLine_srv :: "nat option"
  finalBets_srv :: "(nat \<times> sheet \<times> int) list"

record session_srv = session +
  pendingBets :: sheet

datatype msg_srv =
    AuthError_srv string
  | UserData int nat
  | BetError_srv string
  | PendingBetUpdated string int int
  | NoBetsToSubmit
  | FinalBetsSubmitted sheet int
  | StartBet int int int bool "nat option"
  | FreezeBets_srv int
  | AnnounceWinner nat int
  | RoundEnd int "nat option" int int
  | TimerUpdate bool

record server =
  currentRound_srv :: round_srv
  userSessions_srv :: "(sockid \<times> session_srv) list"
  users_srv :: "nat \<Rightarrow> (string \<times> int) option"
  transactions_srv :: "ledger_entry list"
  game_rounds_srv :: "(int \<times> nat option) list"
  emitted_srv :: "(target \<times> msg_srv) list"

definition emit_srv :: "target \<Rightarrow> msg_srv \<Rightarrow> server \<Rightarrow> server" where
  "emit_srv t m s = s\<lparr>emitted_srv := emitted_srv s @ [(t, m)]\<rparr>"

text \<open>The constructor of \<^verbatim>\<open>GameRound\<close>: \<open>idnow\<close> and \<open>now\<close> are its two readings of
  \<^verbatim>\<open>Date.now()\<close>.\<close>

definition GameRound :: "int \<Rightarrow> int \<Rightarrow> round_srv" where
  "GameRound idnow now =
     \<lparr> id_srv = idnow, startTime_srv = now, freezeTime_srv = now + 25000,
       endTime_srv = now + 30000, nextRoundTime_srv = now + 33000, isBettingOpen = True,
       winningLine_srv = None, finalBets_srv = [] \<rparr>"

definition broadcastRoundStart :: "server \<Rightarrow> server" where
  "broadcastRoundStart s =
     (let r = currentRound_srv s in
      emit_srv Broadcast
        (StartBet (id_srv r) (startTime_srv r) (freezeTime_srv r) (isBettingOpen r)
           (winningLine_srv r)) s)"

definition freezeBets :: "server \<Rightarrow> server" where
  "freezeBets s =
     (let r = (currentRound_srv s)\<lparr>isBettingOpen := False\<rparr> in
      emit_srv Broadcast (FreezeBets_srv (id_srv r)) (s\<lparr>currentRound_srv := r\<rparr>))"

definition announceWinner :: "server \<Rightarrow> real \<Rightarrow> server" where
  "announceWinner s u =
     (let w = draw_line u; r = (currentRound_srv s)\<lparr>winningLine_srv := Some w\<rparr> in
      emit_srv Broadcast (AnnounceWinner w (id_srv r)) (s\<lparr>currentRound_srv := r\<rparr>))"

text \<open>\<^verbatim>\<open>startNewRound()\<close>: a fresh \<^verbatim>\<open>GameRound\<close>, built at the clock of the call.\<close>

definition startNewRound :: "server \<Rightarrow> int \<Rightarrow> int \<Rightarrow> server" where
  "startNewRound s idnow now = broadcastRoundStart (s\<lparr>currentRound_srv := GameRound idnow now\<rparr>)"

text \<open>
  The callback of \<^verbatim>\<open>setInterval\<close> in \<^verbatim>\<open>startGameEngine()\<close>, which runs every second, at
  clock \<open>now\<close>: the freeze, the draw (\<open>u\<close> is the random number), the start of a new round
  (\<open>idnow\<close> and \<open>now2\<close> are the clock readings of its constructor) and the \<^verbatim>\<open>timer_update\<close>.
  Between the draw and the start of a new round the callback calls \<^verbatim>\<open>processRoundResults()\<close>
  when \<open>results_due\<close> holds. That call is asynchronous: it begins inside the tick and, once an
  entry is to be paid, goes on after it; it is the step \<open>processRoundResults\<close> below, taken
  after the tick.
\<close>

definition results_due :: "server \<Rightarrow> int \<Rightarrow> bool" where
  "results_due s now = (now \<ge> endTime_srv (currentRound_srv s))"

definition gameTick :: "server \<Rightarrow> int \<Rightarrow> real \<Rightarrow> int \<Rightarrow> int \<Rightarrow> server" where
  "gameTick s now u idnow now2 =
     (let s1 = (if isBettingOpen (currentRound_srv s) \<and> now \<ge> freezeTime_srv (currentRound_srv s)
                then freezeBets s else s);
          s2 = (if (case winningLine_srv (currentRound_srv s1) of None \<Rightarrow> True | Some w \<Rightarrow> w = 0) \<and>
                   now \<ge> freezeTime_srv (currentRound_srv s1) + 2000
                then announceWinner s1 u else s1);
          s3 = (if now \<ge> nextRoundTime_srv (currentRound_srv s2)
                then startNewRound s2 idnow now2 else s2)
      in emit_srv Broadcast (TimerUpdate (isBettingOpen (currentRound_srv s3))) s3)"

text \<open>The template string \<^verbatim>\<open>`line${currentRound.winningLine}`\<close>.\<close>

definition winning_key :: "nat option \<Rightarrow> string" where
  "winning_key w = (case w of None \<Rightarrow> ''linenull'' | Some n \<Rightarrow> line_key n)"

text \<open>
  One iteration of the loop over \<^verbatim>\<open>currentRound.finalBets\<close> in \<^verbatim>\<open>processRoundResults()\<close>;
  the factor is the literal 2. A fault is a failing database call of the transaction: the catch
  logs it, nothing was committed and nobody is notified. The notification loop over
  \<^verbatim>\<open>userSessions\<close> stops at the first session of the user (\<open>first_session\<close>). When the
  account is gone, \<^verbatim>\<open>users[0].balance\<close> throws in that loop, after the commit.
\<close>

definition payout_one_srv :: "(nat \<Rightarrow> fault) \<Rightarrow> server \<Rightarrow> (nat \<times> sheet \<times> int) \<Rightarrow> server" where
  "payout_one_srv flts s e =
     (let uid = fst e; bs = fst (snd e); r = currentRound_srv s;
          userBetOnWinningLine = obj_get bs (winning_key (winningLine_srv r));
          winAmount = userBetOnWinningLine * 2
      in if winAmount > 0
         then
           if flts uid \<noteq> NoFault then s
           else
             let s1 = s\<lparr> users_srv := add_balance uid winAmount (users_srv s),
                         transactions_srv := transactions_srv s @
                           [\<lparr> tx_user = uid, tx_amount = winAmount, tx_type = Win,
                              tx_descr = WonOn (winningLine_srv r) \<rparr>],
                         game_rounds_srv := game_rounds_srv s @ [(id_srv r, winningLine_srv r)] \<rparr>
             in (case first_session (userSessions_srv s1) uid of
                   None \<Rightarrow> s1
                 | Some (socketId, userSession) \<Rightarrow>
                     (case users_srv s1 uid of
                        None \<Rightarrow> s1
                      | Some (n, b) \<Rightarrow>
                          (emit_srv (To socketId) (RoundEnd (id_srv r) (winningLine_srv r) winAmount b) s1)
                            \<lparr>userSessions_srv := AList.update socketId (userSession\<lparr>balance := b\<rparr>)
                               (userSessions_srv s1)\<rparr>))
         else
           (case first_session (userSessions_srv s) uid of
              None \<Rightarrow> s
            | Some (socketId, userSession) \<Rightarrow>
                emit_srv (To socketId)
                  (RoundEnd (id_srv r) (winningLine_srv r) 0 (balance userSession)) s))"

definition processRoundResults :: "server \<Rightarrow> (nat \<Rightarrow> fault) \<Rightarrow> server" where
  "processRoundResults s flts = foldl (payout_one_srv flts) s (finalBets_srv (currentRound_srv s))"

text \<open>\<^verbatim>\<open>socket.on('authenticate', async (token) => ...)\<close>: a token that \<^verbatim>\<open>jwt.verify\<close> throws
  on and a failing query end in the same catch.\<close>

definition authenticate_srv :: "server \<Rightarrow> sockid \<Rightarrow> token \<Rightarrow> fault \<Rightarrow> server" where
  "authenticate_srv s sock tok flt =
     (case tok of
        Token uid \<Rightarrow>
          if flt \<noteq> NoFault then emit_srv (To sock) (AuthError_srv ''Authentication failed'') s
          else
            (case users_srv s uid of
               None \<Rightarrow> emit_srv (To sock) (AuthError_srv ''User not found'') s
             | Some (uname, b) \<Rightarrow>
                 emit_srv (To sock) (UserData b uid)
                   (s\<lparr>userSessions_srv := AList.update sock
                        \<lparr> userId = uid, username = uname, balance = b, pendingBets = [] \<rparr>
                        (userSessions_srv s)\<rparr>))
      | _ \<Rightarrow> emit_srv (To sock) (AuthError_srv ''Authentication failed'') s)"

record pending_data =
  lineNumber :: string
  amount_srv :: int
  operation_srv :: string

text \<open>
  \<^verbatim>\<open>socket.on('update_pending_bet', async (data) => ...)\<close>. \<open>lineNumber\<close> is the text that the
  template string \<^verbatim>\<open>`line${lineNumber}`\<close> puts after \<^verbatim>\<open>line\<close>. A missing payload makes the
  destructuring throw before the \<^verbatim>\<open>try\<close>: nothing is emitted. A failing query, or an
  account that is gone (\<^verbatim>\<open>users[0].balance\<close> throws), is reported by the catch.
\<close>

definition update_pending_bet :: "server \<Rightarrow> sockid \<Rightarrow> pending_data option \<Rightarrow> fault \<Rightarrow> server" where
  "update_pending_bet s sock dat flt =
     (case map_of (userSessions_srv s) sock of
        None \<Rightarrow> emit_srv (To sock) (BetError_srv ''Not authenticated'') s
      | Some userSession \<Rightarrow>
          if userId userSession = 0 then emit_srv (To sock) (BetError_srv ''Not authenticated'') s
          else if \<not> isBettingOpen (currentRound_srv s)
            then emit_srv (To sock) (BetError_srv ''Betting is closed'') s
          else
            (case dat of
               None \<Rightarrow> s
             | Some d \<Rightarrow>
                 if flt \<noteq> NoFault then emit_srv (To sock) (BetError_srv ''Failed to update bet'') s
                 else
                   (case users_srv s (userId userSession) of
                      None \<Rightarrow> emit_srv (To sock) (BetError_srv ''Failed to update bet'') s
                    | Some (n, currentBalance) \<Rightarrow>
                        if operation_srv d = ''add'' \<and> currentBalance < amount_srv d
                          then emit_srv (To sock) (BetError_srv ''Insufficient balance'') s
                        else
                          let k = ''line'' @ lineNumber d;
                              pb = pendingBets userSession;
                              pb0 = (if obj_get pb k = 0 then AList.update k 0 pb else pb);
                              v = (if operation_srv d = ''add'' then obj_get pb0 k + amount_srv d
                                   else max 0 (obj_get pb0 k - amount_srv d));
                              pb1 = AList.update k v pb0
                          in emit_srv (To sock) (PendingBetUpdated (lineNumber d) v currentBalance)
                               (s\<lparr>userSessions_srv := AList.update sock
                                    (userSession\<lparr>pendingBets := pb1, balance := currentBalance\<rparr>)
                                    (userSessions_srv s)\<rparr>))))"

text \<open>The rows inserted by the loop over \<^verbatim>\<open>Object.entries(pendingBets)\<close>: one per entry with
  a positive amount.\<close>

definition bet_entries_srv :: "nat \<Rightarrow> sheet \<Rightarrow> ledger_entry list" where
  "bet_entries_srv uid bs =
     map (\<lambda>(l, a). \<lparr> tx_user = uid, tx_amount = a, tx_type = Bet, tx_descr = BetOn l \<rparr>)
       (filter (\<lambda>(l, a). a > 0) bs)"

text \<open>
  \<^verbatim>\<open>socket.on('submit_final_bets', async (data) => ...)\<close>. The payload \<^verbatim>\<open>data\<close> is never read:
  what is submitted is the sheet of pending bets kept in the session, and the total is the sum of
  its values. A failing database call, or an account that is gone, is reported by the catch, with
  nothing committed. The cached balance of the session is lowered by the total.
\<close>

definition submit_final_bets_srv :: "server \<Rightarrow> sockid \<Rightarrow> fault \<Rightarrow> server" where
  "submit_final_bets_srv s sock flt =
     (case map_of (userSessions_srv s) sock of
        None \<Rightarrow> emit_srv (To sock) (BetError_srv ''Not authenticated'') s
      | Some userSession \<Rightarrow>
          if userId userSession = 0 then emit_srv (To sock) (BetError_srv ''Not authenticated'') s
          else if isBettingOpen (currentRound_srv s)
            then emit_srv (To sock) (BetError_srv ''Betting still open'') s
          else
            let uid = userId userSession;
                pb = pendingBets userSession;
                totalAmount = sum_values pb
            in if totalAmount = 0 then emit_srv (To sock) NoBetsToSubmit s
               else if flt \<noteq> NoFault
                 then emit_srv (To sock) (BetError_srv ''Failed to submit final bets'') s
               else
                 (case users_srv s uid of
                    None \<Rightarrow> emit_srv (To sock) (BetError_srv ''Failed to submit final bets'') s
                  | Some (n, b) \<Rightarrow>
                      if b < totalAmount
                        then emit_srv (To sock) (BetError_srv ''Insufficient balance for final bets'') s
                      else
                        let r = currentRound_srv s;
                            r' = r\<lparr>finalBets_srv := AList.update uid (pb, totalAmount) (finalBets_srv r)\<rparr>;
                            newBalance = balance userSession - totalAmount
                        in emit_srv (To sock) (FinalBetsSubmitted pb newBalance)
                             (s\<lparr> users_srv := add_balance uid (- totalAmount) (users_srv s),
                                 transactions_srv := transactions_srv s @ bet_entries_srv uid pb,
                                 currentRound_srv := r',
                                 userSessions_srv := AList.update sock
                                   (userSession\<lparr>balance := newBalance, pendingBets := []\<rparr>)
                                   (userSessions_srv s) \<rparr>)))"

text \<open>The server at its start: the first round is built when the module is loaded.\<close>

definition init_srv :: "(nat \<Rightarrow> (string \<times> int) option) \<Rightarrow> int \<Rightarrow> int \<Rightarrow> server" where
  "init_srv us idnow now =
     \<lparr> currentRound_srv = GameRound idnow now, userSessions_srv = [], users_srv = us,
       transactions_srv = [], game_rounds_srv = [], emitted_srv = [] \<rparr>"


section \<open>Observations used in the statements\<close>

text \<open>The messages emitted by a step from \<open>s\<close> to \<open>s'\<close>.\<close>

definition response :: "engine \<Rightarrow> engine \<Rightarrow> (target \<times> msg) list" where
  "response s s' = drop (length (emitted s)) (emitted s')"

text \<open>A submission is accepted when the handler answers \<^verbatim>\<open>bet_accepted\<close>.\<close>

definition accepted :: "engine \<Rightarrow> engine \<Rightarrow> bool" where
  "accepted s s' = (case response s s' of [(t, BetAccepted nb)] \<Rightarrow> True | _ \<Rightarrow> False)"

text \<open>The finalized snapshot of a connection in the current round.\<close>

definition finalized :: "engine \<Rightarrow> sockid \<Rightarrow> snapshot option" where
  "finalized s sock = map_of (finalBets (cur s)) sock"

text \<open>The checks of \<^verbatim>\<open>submit_final_bets\<close>, collected.\<close>

definition submit_ok :: "engine \<Rightarrow> sockid \<Rightarrow> payload \<Rightarrow> fault \<Rightarrow> bool" where
  "submit_ok s sock p flt =
     (case map_of (userSessions s) sock of None \<Rightarrow> False
      | Some sess \<Rightarrow> userId sess \<noteq> 0 \<and> p_roundId p = startTime (cur s) \<and> flt = NoFault \<and>
          (case users s (userId sess) of None \<Rightarrow> False | Some (n, b) \<Rightarrow> \<not> b < submitted_total p))"


text \<open>The stake of a connection on a line in the wager store of the current round.\<close>

definition stake :: "engine \<Rightarrow> sockid \<Rightarrow> string \<Rightarrow> int" where
  "stake s sock l =
     (case map_of (get_bets (bets (cur s)) sock) l of Some (Num n) \<Rightarrow> n | _ \<Rightarrow> 0)"


text \<open>The sum of the five per-line amounts of a sheet.\<close>

definition lines_sum :: "sheet \<Rightarrow> int" where
  "lines_sum bs = obj_get bs ''line1'' + obj_get bs ''line2'' + obj_get bs ''line3'' +
     obj_get bs ''line4'' + obj_get bs ''line5''"

text \<open>The armed timeouts as (round, transition) pairs, in firing order.\<close>

definition targets :: "engine \<Rightarrow> (nat \<times> timer_kind) list" where
  "targets s = map (\<lambda>(due, i, g, k). (g, k)) (pending s)"

definition broadcasts :: "engine \<Rightarrow> msg list" where
  "broadcasts s = map snd (filter (\<lambda>tm. fst tm = Broadcast) (emitted s))"

definition is_freeze :: "msg \<Rightarrow> bool" where
  "is_freeze m = (case m of FreezeBets rid t \<Rightarrow> True | _ \<Rightarrow> False)"

definition is_result :: "msg \<Rightarrow> bool" where
  "is_result m = (case m of RoundResult rid w t \<Rightarrow> True | _ \<Rightarrow> False)"

definition freeze_count :: "engine \<Rightarrow> nat" where
  "freeze_count s = length (filter is_freeze (broadcasts s))"

definition result_count :: "engine \<Rightarrow> nat" where
  "result_count s = length (filter is_result (broadcasts s))"

text \<open>The broadcasts of a step, and what it means for a broadcast to be about the round \<open>r\<close>
  that was current when the step began (\<open>r'\<close> is that round after the step).\<close>

definition new_broadcasts :: "engine \<Rightarrow> engine \<Rightarrow> msg list" where
  "new_broadcasts s s' = drop (length (broadcasts s)) (broadcasts s')"

definition about_round :: "round \<Rightarrow> round \<Rightarrow> msg \<Rightarrow> bool" where
  "about_round r r' m =
     (case m of
        StartRound rid t f x \<Rightarrow> rid = startTime r
      | FreezeBets rid t \<Rightarrow> rid = startTime r
      | RoundResult rid w t \<Rightarrow> rid = result_round_id r' \<and> winningLine r' = Some w
      | _ \<Rightarrow> False)"

text \<open>\<^verbatim>\<open>freeze_bets\<close> was broadcast for the current round.\<close>

definition frozen_announced :: "engine \<Rightarrow> bool" where
  "frozen_announced s = list_ex (\<lambda>m. case m of FreezeBets rid t \<Rightarrow> rid = startTime (cur s) | _ \<Rightarrow> False)
     (broadcasts s)"

text \<open>The invariant of the runs of the timer-driven engine.\<close>

definition inv :: "engine \<Rightarrow> bool" where
  "inv s =
     (let c = currentRound s in
      allocated s = Suc c \<and>
      targets s \<in> {[(c, TStart), (c, TFreeze), (c, TResult)], [(c, TFreeze), (c, TResult)],
                    [(c, TResult)]} \<and>
      winningLine (cur s) = None \<and>
      (\<forall>g<c. \<exists>w. winningLine (rounds s g) = Some w \<and> 1 \<le> w \<and> w \<le> 5) \<and>
      (targets s = [(c, TResult)] \<longrightarrow> frozen_announced s) \<and>
      startTime (cur s) \<le> freezeTime (cur s) \<and> freezeTime (cur s) \<le> resultTime (cur s) \<and>
      0 < startTime (cur s) \<and>
      (\<forall>g<c. startTime (rounds s (Suc g)) = startTime (rounds s g) + ROUND_DURATION_MS) \<and>
      freeze_count s = c + (if (c, TFreeze) \<in> set (targets s) then 0 else 1) \<and>
      result_count s = c)"

text \<open>The invariant of the runs of the interval-driven engine.\<close>

definition inv_iv :: "engine \<Rightarrow> bool" where
  "inv_iv s =
     (let c = currentRound s in
      allocated s = Suc c \<and>
      (\<forall>g<c. \<exists>w. winningLine (rounds s g) = Some w \<and> 1 \<le> w \<and> w \<le> 5) \<and>
      (\<forall>w. winningLine (cur s) = Some w \<longrightarrow> 1 \<le> w \<and> w \<le> 5 \<and> freezeAnnounced (cur s)) \<and>
      freezeTime (cur s) \<le> resultTime (cur s) \<and>
      freeze_count s = c + (if freezeAnnounced (cur s) then 1 else 0) \<and>
      result_count s = 0)"

text \<open>What a socket handler leaves alone: the timers, the current round's reference, schedule
  and winning line, every other round, and the broadcasts.\<close>

definition same_schedule :: "engine \<Rightarrow> engine \<Rightarrow> bool" where
  "same_schedule s s' =
     (pending s' = pending s \<and> currentRound s' = currentRound s \<and> allocated s' = allocated s \<and>
      (\<forall>g. winningLine (rounds s' g) = winningLine (rounds s g) \<and>
           startTime (rounds s' g) = startTime (rounds s g) \<and>
           freezeTime (rounds s' g) = freezeTime (rounds s g) \<and>
           resultTime (rounds s' g) = resultTime (rounds s g) \<and>
           startAnnounced (rounds s' g) = startAnnounced (rounds s g) \<and>
           freezeAnnounced (rounds s' g) = freezeAnnounced (rounds s g)) \<and>
      (\<forall>g. g \<noteq> currentRound s \<longrightarrow> rounds s' g = rounds s g) \<and>
      broadcasts s' = broadcasts s)"

text \<open>The session that the notification loop finds for a user: a connection is the first
  session of its user when no earlier entry of the map belongs to the same user.\<close>

definition is_first :: "(sockid \<times> 'a session_scheme) list \<Rightarrow> sockid \<Rightarrow> bool" where
  "is_first ss k =
     (case map_of ss k of None \<Rightarrow> False
      | Some se \<Rightarrow> map_option fst (first_session ss (userId se)) = Some k)"

text \<open>The claim's words for the same: going through the map in its order, the first connection
  whose session belongs to the user.\<close>

fun first_key :: "(sockid \<times> 'a session_scheme) list \<Rightarrow> nat \<Rightarrow> sockid option" where
  "first_key [] uid = None"
| "first_key ((k, se) # ss) uid = (if userId se = uid then Some k else first_key ss uid)"

text \<open>The connections that the settlement of the finalized entries \<open>es\<close> notifies, in order:
  for each entry the first connection of its user, when the user has one.\<close>

definition recipients :: "(sockid \<times> 'a session_scheme) list \<Rightarrow> (sockid \<times> snapshot) list \<Rightarrow> sockid list" where
  "recipients ss es = List.map_filter (\<lambda>e. first_key ss (s_userId (snd e))) es"

text \<open>The same for the finalized entries of \<^verbatim>\<open>src/server.js\<close>, which are kept by user.\<close>

definition recipients_srv :: "(sockid \<times> 'a session_scheme) list \<Rightarrow> (nat \<times> sheet \<times> int) list \<Rightarrow> sockid list" where
  "recipients_srv ss es = List.map_filter (\<lambda>e. first_key ss (fst e)) es"

text \<open>The keys of the session map with the user of each session, in the order of the map.\<close>

definition session_users :: "(sockid \<times> 'a session_scheme) list \<Rightarrow> (sockid \<times> nat) list" where
  "session_users ss = map (\<lambda>(k, se). (k, userId se)) ss"

text \<open>From \<open>s0\<close> to \<open>s\<close> the session map kept its keys, their order and their users,
  only first sessions were sent a targeted message, and only first sessions were changed.\<close>

definition notified_first :: "engine \<Rightarrow> engine \<Rightarrow> bool" where
  "notified_first s0 s =
     (distinct (map fst (userSessions s)) \<and>
      session_users (userSessions s) = session_users (userSessions s0) \<and>
      take (length (emitted s0)) (emitted s) = emitted s0 \<and>
      (\<forall>tm\<in>set (response s0 s). \<forall>k. fst tm = To k \<longrightarrow> is_first (userSessions s0) k) \<and>
      (\<forall>k. \<not> is_first (userSessions s0) k \<longrightarrow>
         map_of (userSessions s) k = map_of (userSessions s0) k))"

text \<open>The claim's payout rule, in its own words: the amount on the winning line times the
  multiplier, credited with a \<^verbatim>\<open>win\<close> row exactly when it is positive.\<close>

definition spec_win_rows :: "nat \<Rightarrow> nat option \<Rightarrow> (sockid \<times> snapshot) list \<Rightarrow> ledger_entry list" where
  "spec_win_rows w rid es =
     concat (map (\<lambda>(k, snap).
        if obj_get (s_bets snap) (line_key w) * WIN_MULTIPLIER > 0
        then [\<lparr> tx_user = s_userId snap,
                tx_amount = obj_get (s_bets snap) (line_key w) * WIN_MULTIPLIER,
                tx_type = Win, tx_descr = WinDescr w rid \<rparr>]
        else []) es)"

definition spec_credits :: "nat \<Rightarrow> (sockid \<times> snapshot) list \<Rightarrow> (nat \<Rightarrow> (string \<times> int) option)
     \<Rightarrow> (nat \<Rightarrow> (string \<times> int) option)" where
  "spec_credits w es us =
     foldl (\<lambda>us' (k, snap).
        if obj_get (s_bets snap) (line_key w) * WIN_MULTIPLIER > 0
        then add_balance (s_userId snap) (obj_get (s_bets snap) (line_key w) * WIN_MULTIPLIER) us'
        else us') us es"

subsection \<open>Observations on the monolithic server\<close>

definition response_srv :: "server \<Rightarrow> server \<Rightarrow> (target \<times> msg_srv) list" where
  "response_srv s s' = drop (length (emitted_srv s)) (emitted_srv s')"

text \<open>A submission is accepted when the handler answers \<^verbatim>\<open>final_bets_submitted\<close> with
  \<^verbatim>\<open>success: true\<close>.\<close>

definition accepted_srv :: "server \<Rightarrow> server \<Rightarrow> bool" where
  "accepted_srv s s' =
     (case response_srv s s' of [(t, FinalBetsSubmitted bs nb)] \<Rightarrow> True | _ \<Rightarrow> False)"

text \<open>The checks of its \<^verbatim>\<open>submit_final_bets\<close>, collected.\<close>

definition submit_ok_srv :: "server \<Rightarrow> sockid \<Rightarrow> fault \<Rightarrow> bool" where
  "submit_ok_srv s sock flt =
     (case map_of (userSessions_srv s) sock of None \<Rightarrow> False
      | Some se \<Rightarrow> userId se \<noteq> 0 \<and> \<not> isBettingOpen (currentRound_srv s) \<and>
          sum_values (pendingBets se) \<noteq> 0 \<and> flt = NoFault \<and>
          (case users_srv s (userId se) of None \<Rightarrow> False
           | Some (n, b) \<Rightarrow> \<not> b < sum_values (pendingBets se)))"

text \<open>The step from \<open>s\<close> to \<open>s'\<close> only answered the connection with \<open>m\<close>: the accounts, the
  ledger, the round with its snapshots and the sessions stay as they were.\<close>

definition answered_srv :: "msg_srv \<Rightarrow> sockid \<Rightarrow> server \<Rightarrow> server \<Rightarrow> bool" where
  "answered_srv m sock s s' =
     (response_srv s s' = [(To sock, m)] \<and> users_srv s' = users_srv s \<and>
      transactions_srv s' = transactions_srv s \<and> currentRound_srv s' = currentRound_srv s \<and>
      userSessions_srv s' = userSessions_srv s)"

text \<open>The finalized entry of a user in its round.\<close>

definition finalized_srv :: "server \<Rightarrow> nat \<Rightarrow> (sheet \<times> int) option" where
  "finalized_srv s uid = map_of (finalBets_srv (currentRound_srv s)) uid"

text \<open>As \<open>notified_first\<close>, for the sessions of the monolithic server.\<close>

definition notified_first_srv :: "server \<Rightarrow> server \<Rightarrow> bool" where
  "notified_first_srv s0 s =
     (distinct (map fst (userSessions_srv s)) \<and>
      session_users (userSessions_srv s) = session_users (userSessions_srv s0) \<and>
      take (length (emitted_srv s0)) (emitted_srv s) = emitted_srv s0 \<and>
      (\<forall>tm\<in>set (response_srv s0 s). \<forall>k. fst tm = To k \<longrightarrow> is_first (userSessions_srv s0) k) \<and>
      (\<forall>k. \<not> is_first (userSessions_srv s0) k \<longrightarrow>
         map_of (userSessions_srv s) k = map_of (userSessions_srv s0) k))"

text \<open>The payout rule in the claim's words, with the factor 2 of the monolithic server.\<close>

definition spec_win_rows_srv :: "nat option \<Rightarrow> (nat \<times> sheet \<times> int) list \<Rightarrow> ledger_entry list" where
  "spec_win_rows_srv w es =
     concat (map (\<lambda>(uid, bs, tot).
        if obj_get bs (winning_key w) * 2 > 0
        then [\<lparr> tx_user = uid, tx_amount = obj_get bs (winning_key w) * 2,
                tx_type = Win, tx_descr = WonOn w \<rparr>]
        else []) es)"

definition spec_credits_srv :: "nat option \<Rightarrow> (nat \<times> sheet \<times> int) list \<Rightarrow> (nat \<Rightarrow> (string \<times> int) option)
     \<Rightarrow> (nat \<Rightarrow> (string \<times> int) option)" where
  "spec_credits_srv w es us =
     foldl (\<lambda>us' (uid, bs, tot).
        if obj_get bs (winning_key w) * 2 > 0
        then add_balance uid (obj_get bs (winning_key w) * 2) us'
        else us') us es"

subsection \<open>Example runs\<close>

definition demo_users :: "nat \<Rightarrow> (string \<times> int) option" where
  "demo_users = (\<lambda>uid. if uid = 1 then Some (''alice'', 1000) else None)"

text \<open>The timer-driven engine started at clock 1000000, with one authenticated connection.\<close>

definition demo :: engine where
  "demo = authenticate (bootstrap demo_users [] [] [] 1000000 1000000) ''sockA'' (Token 1) NoFault"

text \<open>The same engine after the start and the freeze timers fired.\<close>

definition demo_frozen :: engine where
  "demo_frozen =
     fire (fire demo 1000000 0 1000000 NoFault (\<lambda>_. NoFault)) 1025000 0 1025000 NoFault (\<lambda>_. NoFault)"

definition cheap_payload :: payload where
  "cheap_payload = \<lparr> p_roundId = 1000000, p_bets = [(''line1'', 100)], p_totalAmount = Some 1 \<rparr>"

definition line3_payload :: payload where
  "line3_payload = \<lparr> p_roundId = 1000000, p_bets = [(''line3'', 100)], p_totalAmount = Some 100 \<rparr>"

definition big_payload :: payload where
  "big_payload = \<lparr> p_roundId = 1000000, p_bets = [(''line2'', 5000)], p_totalAmount = None \<rparr>"

definition stale_payload :: payload where
  "stale_payload = \<lparr> p_roundId = 960000, p_bets = [(''line2'', 50)], p_totalAmount = Some 50 \<rparr>"

definition empty_payload :: payload where
  "empty_payload = \<lparr> p_roundId = 1000000, p_bets = [], p_totalAmount = None \<rparr>"

text \<open>Two submissions of the same connection in a row, before the freeze.\<close>

definition demo_once :: engine where
  "demo_once = submit_final_bets demo ''sockA'' line3_payload NoFault"

definition demo_twice :: engine where
  "demo_twice = submit_final_bets demo_once ''sockA'' line3_payload NoFault"

text \<open>The frozen example run with 100 on line 3 finalized by the connection.\<close>

definition demo_final :: engine where
  "demo_final = submit_final_bets demo_frozen ''sockA'' line3_payload NoFault"

text \<open>The frozen example run with a second connection of the same user, which finalizes 100
  on line 3.\<close>

definition demo_two :: engine where
  "demo_two = submit_final_bets (authenticate demo_frozen ''sockB'' (Token 1) NoFault)
       ''sockB'' line3_payload NoFault"

definition late_bet :: bet_data where
  "late_bet = \<lparr> line = ''line1'', amount = 10, operation = ''add'' \<rparr>"


text \<open>The interval-driven engine started at clock 1000000, and the same engine after the
  tick at 1000000, which announced the start, and the tick at 1027000, which announced the
  freeze and drew the line.\<close>

definition demo_iv0 :: engine where
  "demo_iv0 = init_iv demo_users [] [] [] 1000000"

definition demo_iv :: engine where
  "demo_iv = tick_iv (tick_iv demo_iv0 1000000 0 NoFault) 1027000 0 NoFault"

text \<open>The same engine once the processing of the result has ended, at clock 1027350.\<close>

definition demo_iv_next :: engine where
  "demo_iv_next = finish_result_iv demo_iv 1027100 1027350 NoFault (\<lambda>_. NoFault)"

text \<open>The timer-driven example run after the result timer of its first round has fired (line 3
  is drawn with the random number 1/2), and that state after the callback of the result timer
  is run once more for the first round.\<close>

definition demo_next :: engine where
  "demo_next = fire demo_frozen 1030000 (1/2) 1030050 NoFault (\<lambda>_. NoFault)"

definition demo_replay :: engine where
  "demo_replay = emitRoundResultAndProcess demo_next 0 0 1030100 1030150 NoFault (\<lambda>_. NoFault)"

definition negative_payload :: payload where
  "negative_payload =
     \<lparr> p_roundId = 1000000, p_bets = [(''line1'', 100)], p_totalAmount = Some (- 500) \<rparr>"



text \<open>The monolithic server started at clock 1000000: one connection authenticates and puts
  100 on line 3; the tick at 1025000 freezes the bets; the connection submits; the tick at
  1027000 draws line 3 (random number 1/2); the ticks at 1030000 and at 1031000 each find the
  results due, and the results are processed after each of them.\<close>

definition bet3 :: pending_data where
  "bet3 = \<lparr> lineNumber = ''3'', amount_srv = 100, operation_srv = ''add'' \<rparr>"

definition srv_open :: server where
  "srv_open = update_pending_bet
     (authenticate_srv (init_srv demo_users 1000000 1000000) ''sockA'' (Token 1) NoFault)
     ''sockA'' (Some bet3) NoFault"

definition srv_frozen :: server where
  "srv_frozen = gameTick srv_open 1025000 0 0 0"

definition srv_final :: server where
  "srv_final = submit_final_bets_srv srv_frozen ''sockA'' NoFault"

definition srv_drawn :: server where
  "srv_drawn = gameTick srv_final 1027000 (1/2) 0 0"

definition srv_paid :: server where
  "srv_paid = processRoundResults (gameTick srv_drawn 1030000 0 0 0) (\<lambda>_. NoFault)"

definition srv_paid_twice :: server where
  "srv_paid_twice = processRoundResults (gameTick srv_paid 1031000 0 0 0) (\<lambda>_. NoFault)"

text \<open>The same run where the tick at 1027000 draws line 1 (random number 0).\<close>

definition srv_missed :: server where
  "srv_missed = processRoundResults
     (gameTick (gameTick srv_final 1027000 0 0 0) 1030000 0 0 0) (\<lambda>_. NoFault)"

text \<open>The same server with two connections of one user, the second of which puts 100 on
  line 3 and submits after the freeze; line 3 is drawn.\<close>

definition srv_two :: server where
  "srv_two = announceWinner
     (submit_final_bets_srv
        (freezeBets
           (update_pending_bet
              (authenticate_srv
                 (authenticate_srv (init_srv demo_users 1000000 1000000) ''sockA'' (Token 1) NoFault)
                 ''sockB'' (Token 1) NoFault)
              ''sockB'' (Some bet3) NoFault))
        ''sockB'' NoFault)
     (1/2)"

section \<open>Basic facts\<close>

lemma obj_get_update: "obj_get (AList.update k v ob) k' = (if k' = k then v else obj_get ob k')"
  by (simp add: obj_get_def update_conv')

lemma get_bets_update: "get_bets (AList.update k v bm) k = v"
  by (simp add: get_bets_def update_conv')

lemma get_bets_init_bets:
  "get_bets (init_bets bm sock) sock =
     (case map_of bm sock of None \<Rightarrow> zero_sheet | Some ob \<Rightarrow> ob)"
  by (simp add: init_bets_def get_bets_def update_conv' split: option.splits)


lemma sum_values_foldl: "foldl (\<lambda>s v. s + v) a xs = a + sum_list xs" for a :: int
  by (induction xs arbitrary: a) simp_all

lemma sum_values_sum_list: "sum_values ob = sum_list (map snd ob)"
  by (simp add: sum_values_def sum_values_foldl)

lemma draw_line_range: "0 \<le> u \<Longrightarrow> u < 1 \<Longrightarrow> 1 \<le> draw_line u \<and> draw_line u \<le> 5"
proof -
  assume u: "0 \<le> u" "u < 1"
  have "0 \<le> \<lfloor>u * 5\<rfloor>" using u by simp
  moreover have "\<lfloor>u * 5\<rfloor> < 5" using u by (simp add: floor_less_iff)
  ultimately have "nat \<lfloor>u * 5\<rfloor> \<le> 4" by linarith
  then show ?thesis by (simp add: draw_line_def)
qed

subsection \<open>Field lemmas\<close>

lemma emit_fields:
  "users (emit t m s) = users s" "transactions (emit t m s) = transactions s"
  "player_bets (emit t m s) = player_bets s" "rounds (emit t m s) = rounds s"
  "currentRound (emit t m s) = currentRound s" "userSessions (emit t m s) = userSessions s"
  "pending (emit t m s) = pending s" "allocated (emit t m s) = allocated s"
  "game_rounds (emit t m s) = game_rounds s" "timer_seq (emit t m s) = timer_seq s"
  "emitted (emit t m s) = emitted s @ [(t, m)]"
  by (simp_all add: emit_def)

lemma cur_emit: "cur (emit t m s) = cur s"
  by (simp add: cur_def emit_def)

lemma response_emit: "response s (emit t m s) = [(t, m)]"
  by (simp add: response_def emit_def)

lemma broadcasts_emit:
  "broadcasts (emit t m s) = broadcasts s @ (if t = Broadcast then [m] else [])"
  by (simp add: broadcasts_def emit_def)

lemma createRound_fields:
  "startTime (createRound st now) = (if st \<noteq> 0 then st else now)"
  "freezeTime (createRound st now) = (if st \<noteq> 0 then st else now) + FREEZE_OFFSET_MS"
  "resultTime (createRound st now) = (if st \<noteq> 0 then st else now) + RESULT_OFFSET_MS"
  "winningLine (createRound st now) = None"
  "finalBets (createRound st now) = []"
  "bets (createRound st now) = []"
  "timers (createRound st now) = []"
  by (simp_all add: createRound_def Let_def)

lemma setTimeout_fields:
  "currentRound (setTimeout s g k d now) = currentRound s"
  "allocated (setTimeout s g k d now) = allocated s"
  "emitted (setTimeout s g k d now) = emitted s"
  "users (setTimeout s g k d now) = users s"
  "transactions (setTimeout s g k d now) = transactions s"
  "userSessions (setTimeout s g k d now) = userSessions s"
  "pending (setTimeout s g k d now) = arm (now + d, timer_seq s, g, k) (pending s)"
  "timer_seq (setTimeout s g k d now) = Suc (timer_seq s)"
  "rounds (setTimeout s g k d now) =
     (rounds s)(g := (rounds s g)\<lparr>timers := AList.update k (timer_seq s) (timers (rounds s g))\<rparr>)"
  by (simp_all add: setTimeout_def Let_def)

lemma scheduleRoundTimers_fields:
  "currentRound (scheduleRoundTimers s g now) = currentRound s"
  "allocated (scheduleRoundTimers s g now) = allocated s"
  "emitted (scheduleRoundTimers s g now) = emitted s"
  "users (scheduleRoundTimers s g now) = users s"
  "transactions (scheduleRoundTimers s g now) = transactions s"
  "userSessions (scheduleRoundTimers s g now) = userSessions s"
  by (simp_all add: scheduleRoundTimers_def Let_def setTimeout_fields)

lemma scheduleRoundTimers_rounds:
  "rounds (scheduleRoundTimers s g now) =
     (rounds s)(g := (rounds s g)\<lparr>timers :=
        AList.update TResult (Suc (Suc (timer_seq s)))
          (AList.update TFreeze (Suc (timer_seq s))
             (AList.update TStart (timer_seq s) (timers (rounds s g))))\<rparr>)"
  by (simp add: scheduleRoundTimers_def Let_def setTimeout_fields)

lemma scheduleRoundTimers_pending:
  assumes "pending s = []" "startTime (rounds s g) \<le> freezeTime (rounds s g)"
    "freezeTime (rounds s g) \<le> resultTime (rounds s g)"
  shows "targets (scheduleRoundTimers s g now) = [(g, TStart), (g, TFreeze), (g, TResult)]"
  using assms
  by (auto simp add: targets_def scheduleRoundTimers_def Let_def setTimeout_fields max_def)

lemma clearRoundTimers_fields:
  "currentRound (clearRoundTimers s g) = currentRound s"
  "allocated (clearRoundTimers s g) = allocated s"
  "emitted (clearRoundTimers s g) = emitted s"
  "users (clearRoundTimers s g) = users s"
  "transactions (clearRoundTimers s g) = transactions s"
  "userSessions (clearRoundTimers s g) = userSessions s"
  "timer_seq (clearRoundTimers s g) = timer_seq s"
  "rounds (clearRoundTimers s g) = (rounds s)(g := (rounds s g)\<lparr>timers := []\<rparr>)"
  "pending (clearRoundTimers s g) =
     filter (\<lambda>(due, i, g', k). i \<notin> snd ` set (timers (rounds s g))) (pending s)"
  by (simp_all add: clearRoundTimers_def Let_def)

lemma persistRoundStart_fields:
  "currentRound (persistRoundStart s g flt) = currentRound s"
  "allocated (persistRoundStart s g flt) = allocated s"
  "emitted (persistRoundStart s g flt) = emitted s"
  "users (persistRoundStart s g flt) = users s"
  "transactions (persistRoundStart s g flt) = transactions s"
  "userSessions (persistRoundStart s g flt) = userSessions s"
  "pending (persistRoundStart s g flt) = pending s"
  "timer_seq (persistRoundStart s g flt) = timer_seq s"
  by (simp_all add: persistRoundStart_def Let_def)

lemma persistRoundStart_rounds:
  "rounds (persistRoundStart s g flt) =
     (if flt \<noteq> NoFault then rounds s
      else (rounds s)(g := (rounds s g)\<lparr>persistedRoundId := Some (Suc (length (game_rounds s)))\<rparr>))"
  by (simp add: persistRoundStart_def Let_def)

lemma persistRoundResult_fields:
  "currentRound (persistRoundResult s g flt) = currentRound s"
  "allocated (persistRoundResult s g flt) = allocated s"
  "emitted (persistRoundResult s g flt) = emitted s"
  "users (persistRoundResult s g flt) = users s"
  "transactions (persistRoundResult s g flt) = transactions s"
  "userSessions (persistRoundResult s g flt) = userSessions s"
  "pending (persistRoundResult s g flt) = pending s"
  "timer_seq (persistRoundResult s g flt) = timer_seq s"
  by (simp_all add: persistRoundResult_def Let_def split: option.splits)

lemma persistRoundResult_rounds:
  "rounds (persistRoundResult s g flt) =
     (if flt = NoFault \<and> persistedRoundId (rounds s g) = None
      then (rounds s)(g := (rounds s g)\<lparr>persistedRoundId := Some (Suc (length (game_rounds s)))\<rparr>)
      else rounds s)"
  by (simp add: persistRoundResult_def Let_def split: option.splits)

lemma credit_win_fields:
  "currentRound (credit_win s uid w rid a flt) = currentRound s"
  "allocated (credit_win s uid w rid a flt) = allocated s"
  "emitted (credit_win s uid w rid a flt) = emitted s"
  "userSessions (credit_win s uid w rid a flt) = userSessions s"
  "pending (credit_win s uid w rid a flt) = pending s"
  "timer_seq (credit_win s uid w rid a flt) = timer_seq s"
  "rounds (credit_win s uid w rid a flt) = rounds s"
  by (simp_all add: credit_win_def)

lemma notify_payee_fields:
  "currentRound (notify_payee s rid w uid a now flt) = currentRound s"
  "allocated (notify_payee s rid w uid a now flt) = allocated s"
  "pending (notify_payee s rid w uid a now flt) = pending s"
  "timer_seq (notify_payee s rid w uid a now flt) = timer_seq s"
  "rounds (notify_payee s rid w uid a now flt) = rounds s"
  "users (notify_payee s rid w uid a now flt) = users s"
  "transactions (notify_payee s rid w uid a now flt) = transactions s"
  "broadcasts (notify_payee s rid w uid a now flt) = broadcasts s"
  by (simp_all add: notify_payee_def Let_def emit_fields broadcasts_def split: option.splits prod.splits)

lemma payout_one_fields:
  "currentRound (payout_one g w now flts s e) = currentRound s"
  "allocated (payout_one g w now flts s e) = allocated s"
  "pending (payout_one g w now flts s e) = pending s"
  "timer_seq (payout_one g w now flts s e) = timer_seq s"
  "rounds (payout_one g w now flts s e) = rounds s"
  "broadcasts (payout_one g w now flts s e) = broadcasts s"
  by (simp_all add: payout_one_def Let_def notify_payee_fields credit_win_fields)
     (simp add: broadcasts_def credit_win_fields)

lemma payout_loop_fields:
  "currentRound (foldl (payout_one g w now flts) s es) = currentRound s"
  "allocated (foldl (payout_one g w now flts) s es) = allocated s"
  "pending (foldl (payout_one g w now flts) s es) = pending s"
  "timer_seq (foldl (payout_one g w now flts) s es) = timer_seq s"
  "rounds (foldl (payout_one g w now flts) s es) = rounds s"
  "broadcasts (foldl (payout_one g w now flts) s es) = broadcasts s"
  by (induction es arbitrary: s; simp add: payout_one_fields)+

lemma settle_fields:
  "currentRound (settle s g u now pflt flts) = currentRound s"
  "allocated (settle s g u now pflt flts) = allocated s"
  "pending (settle s g u now pflt flts) = pending s"
  "timer_seq (settle s g u now pflt flts) = timer_seq s"
  by (simp_all add: settle_def Let_def emit_fields payout_loop_fields persistRoundResult_fields)

lemma settle_rounds:
  "rounds (settle s g u now pflt flts) =
     (rounds s)(g := (rounds s g)\<lparr> winningLine := Some (draw_line u),
        persistedRoundId := (if pflt = NoFault \<and> persistedRoundId (rounds s g) = None
           then Some (Suc (length (game_rounds s))) else persistedRoundId (rounds s g)) \<rparr>)"
  by (auto simp add: settle_def Let_def emit_fields payout_loop_fields persistRoundResult_fields
      persistRoundResult_rounds)

lemma settle_broadcasts:
  "broadcasts (settle s g u now pflt flts) =
     broadcasts s @ [RoundResult (result_round_id (rounds (settle s g u now pflt flts) g)) (draw_line u) now]"
proof -
  have "broadcasts (persistRoundResult (s\<lparr>rounds := (rounds s)(g := (rounds s g)\<lparr>winningLine := Some (draw_line u)\<rparr>)\<rparr>) g pflt)
      = broadcasts s"
    by (simp add: broadcasts_def persistRoundResult_fields)
  then show ?thesis
    by (simp add: settle_def Let_def broadcasts_emit payout_loop_fields emit_fields)
qed

lemma rollover_fields:
  "currentRound (rollover s g now2) = allocated s"
  "allocated (rollover s g now2) = Suc (allocated s)"
  "emitted (rollover s g now2) = emitted s"
  "users (rollover s g now2) = users s"
  "transactions (rollover s g now2) = transactions s"
  "userSessions (rollover s g now2) = userSessions s"
  by (simp_all add: rollover_def Let_def scheduleRoundTimers_fields clearRoundTimers_fields)

lemma rollover_old:
  "g' \<noteq> allocated s \<Longrightarrow> g' \<noteq> g \<Longrightarrow> rounds (rollover s g now2) g' = rounds s g'"
  "g' \<noteq> allocated s \<Longrightarrow> winningLine (rounds (rollover s g now2) g') = winningLine (rounds s g')"
  "g' \<noteq> allocated s \<Longrightarrow> startTime (rounds (rollover s g now2) g') = startTime (rounds s g')"
  by (simp_all add: rollover_def Let_def scheduleRoundTimers_rounds clearRoundTimers_fields)

lemma rollover_new:
  "winningLine (rounds (rollover s g now2) (allocated s)) = None"
  "startTime (rounds (rollover s g now2) (allocated s)) =
     (if startTime (rounds s g) + ROUND_DURATION_MS \<noteq> 0
      then startTime (rounds s g) + ROUND_DURATION_MS else now2)"
  "freezeTime (rounds (rollover s g now2) (allocated s)) =
     startTime (rounds (rollover s g now2) (allocated s)) + FREEZE_OFFSET_MS"
  "resultTime (rounds (rollover s g now2) (allocated s)) =
     startTime (rounds (rollover s g now2) (allocated s)) + RESULT_OFFSET_MS"
  by (simp_all add: rollover_def Let_def scheduleRoundTimers_rounds clearRoundTimers_fields
      createRound_fields)

lemma rollover_targets:
  assumes "pending s = []"
  shows "targets (rollover s g now2) =
     [(allocated s, TStart), (allocated s, TFreeze), (allocated s, TResult)]"
proof -
  let ?s2 = "(clearRoundTimers s g)\<lparr> rounds := (rounds (clearRoundTimers s g))
       (allocated (clearRoundTimers s g) := createRound (startTime (rounds s g) + ROUND_DURATION_MS) now2),
     allocated := Suc (allocated (clearRoundTimers s g)),
     currentRound := allocated (clearRoundTimers s g) \<rparr>"
  have r: "rollover s g now2 = scheduleRoundTimers ?s2 (allocated s) now2"
    by (simp add: rollover_def Let_def clearRoundTimers_fields)
  have p: "pending ?s2 = []" using assms by (simp add: clearRoundTimers_fields)
  have t: "startTime (rounds ?s2 (allocated s)) \<le> freezeTime (rounds ?s2 (allocated s))"
    "freezeTime (rounds ?s2 (allocated s)) \<le> resultTime (rounds ?s2 (allocated s))"
    by (simp_all add: clearRoundTimers_fields createRound_fields FREEZE_OFFSET_MS_def RESULT_OFFSET_MS_def)
  show ?thesis unfolding r by (rule scheduleRoundTimers_pending[OF p t])
qed

section \<open>Socket handlers leave the schedule alone\<close>

lemma same_schedule_emit: "same_schedule s (emit (To k) m s)"
  by (simp add: same_schedule_def emit_fields broadcasts_emit)

lemma same_schedule_place_bet: "same_schedule s (place_bet s sock dat)"
  by (simp add: same_schedule_def place_bet_def Let_def emit_def cur_def broadcasts_def)

lemma same_schedule_commit_bets: "same_schedule s (commit_bets s sock uid b p)"
  by (simp add: same_schedule_def commit_bets_def Let_def emit_def cur_def broadcasts_def)

lemma same_schedule_submit_core: "same_schedule s (submit_core c s sock p flt)"
  by (simp add: submit_core_def same_schedule_emit same_schedule_commit_bets
      split: option.splits prod.splits)

lemma same_schedule_authenticate: "same_schedule s (authenticate s sock tok flt)"
  by (simp add: authenticate_def same_schedule_def emit_def broadcasts_def
      split: token.splits option.splits prod.splits)

lemma same_schedule_join_game: "same_schedule s (join_game s sock now)"
  by (simp add: join_game_def same_schedule_emit)

lemma same_schedule_disconnect: "same_schedule s (disconnect s sock)"
  by (simp add: disconnect_def same_schedule_def broadcasts_def)

lemma inv_same_schedule:
  assumes "inv s" "same_schedule s s'"
  shows "inv s'"
proof -
  have c: "cur s' = rounds s' (currentRound s)" "targets s' = targets s"
    "currentRound s' = currentRound s" "allocated s' = allocated s"
    "freeze_count s' = freeze_count s" "result_count s' = result_count s"
    using assms(2)
    by (simp_all add: cur_def same_schedule_def targets_def freeze_count_def result_count_def)
  have st: "startTime (cur s') = startTime (cur s)" "broadcasts s' = broadcasts s"
    using assms(2) by (simp_all add: same_schedule_def cur_def)
  have f: "frozen_announced s' = frozen_announced s"
    unfolding frozen_announced_def st ..
  have r: "\<And>g. winningLine (rounds s' g) = winningLine (rounds s g)"
    "\<And>g. startTime (rounds s' g) = startTime (rounds s g)"
    "\<And>g. freezeTime (rounds s' g) = freezeTime (rounds s g)"
    "\<And>g. resultTime (rounds s' g) = resultTime (rounds s g)"
    using assms(2) by (simp_all add: same_schedule_def)
  show ?thesis
    using assms(1) unfolding inv_def Let_def c f r by (simp add: cur_def)
qed

section \<open>The invariant of the timer-driven engine\<close>

lemma targets_pop:
  "pending s = (due, i, g, k) # q \<Longrightarrow> targets s = (g, k) # targets (s\<lparr>pending := q\<rparr>)"
  by (simp add: targets_def)

lemma inv_fire_start:
  assumes "inv s" "pending s = (due, i, g, TStart) # q"
  shows "inv (emitStartRound (s\<lparr>pending := q\<rparr>) g now pflt)"
proof -
  let ?s' = "emitStartRound (s\<lparr>pending := q\<rparr>) g now pflt"
  from assms have g: "g = currentRound s"
    and t: "targets (s\<lparr>pending := q\<rparr>) = [(g, TFreeze), (g, TResult)]"
    and ts: "targets s = [(g, TStart), (g, TFreeze), (g, TResult)]"
    by (auto simp: inv_def Let_def targets_pop)
  have f: "currentRound ?s' = currentRound s" "allocated ?s' = allocated s"
    "targets ?s' = targets (s\<lparr>pending := q\<rparr>)"
    by (simp_all add: emitStartRound_def Let_def persistRoundStart_fields emit_fields targets_def)
  have r: "\<And>g'. winningLine (rounds ?s' g') = winningLine (rounds s g')"
    "\<And>g'. startTime (rounds ?s' g') = startTime (rounds s g')"
    "\<And>g'. freezeTime (rounds ?s' g') = freezeTime (rounds s g')"
    "\<And>g'. resultTime (rounds ?s' g') = resultTime (rounds s g')"
    by (simp_all add: emitStartRound_def Let_def persistRoundStart_rounds emit_fields)
  have b: "freeze_count ?s' = freeze_count s" "result_count ?s' = result_count s"
    by (simp_all add: freeze_count_def result_count_def emitStartRound_def Let_def broadcasts_def
        persistRoundStart_fields emit_fields is_freeze_def is_result_def)
  show ?thesis using assms(1) unfolding inv_def Let_def f t r b cur_def g[symmetric]
    by (simp add: ts)
qed

lemma inv_fire_freeze:
  assumes "inv s" "pending s = (due, i, g, TFreeze) # q"
  shows "inv (emitFreezeBets (s\<lparr>pending := q\<rparr>) g now)"
proof -
  let ?s' = "emitFreezeBets (s\<lparr>pending := q\<rparr>) g now"
  from assms have g: "g = currentRound s" and t: "targets (s\<lparr>pending := q\<rparr>) = [(g, TResult)]"
    and ts: "targets s = [(g, TFreeze), (g, TResult)]"
    by (auto simp: inv_def Let_def targets_pop)
  have f: "currentRound ?s' = currentRound s" "allocated ?s' = allocated s"
    "targets ?s' = targets (s\<lparr>pending := q\<rparr>)" "rounds ?s' = rounds s"
    by (simp_all add: emitFreezeBets_def emit_fields targets_def)
  have fr: "frozen_announced ?s'"
    by (simp add: frozen_announced_def cur_def emitFreezeBets_def broadcasts_emit emit_fields g)
  have b: "freeze_count ?s' = Suc (freeze_count s)" "result_count ?s' = result_count s"
    by (simp_all add: freeze_count_def result_count_def emitFreezeBets_def broadcasts_def
        emit_fields is_freeze_def is_result_def)
  show ?thesis using assms(1) fr unfolding inv_def Let_def f t b cur_def g[symmetric]
    by (simp add: ts)
qed

lemma inv_fire_result:
  assumes "inv s" "pending s = (due, i, g, TResult) # q" "0 \<le> u" "u < 1"
  shows "inv (emitRoundResultAndProcess (s\<lparr>pending := q\<rparr>) g u now now2 pflt flts)"
proof -
  let ?s1 = "s\<lparr>pending := q\<rparr>"
  let ?s2 = "settle ?s1 g u now pflt flts"
  let ?s' = "rollover ?s2 g now2"
  from assms have g: "g = currentRound s" and q: "q = []" and ts: "targets s = [(g, TResult)]"
    by (auto simp: inv_def Let_def targets_def)
  from assms(1) have a: "allocated s = Suc g"
    and w: "\<forall>g'<g. \<exists>w. winningLine (rounds s g') = Some w \<and> 1 \<le> w \<and> w \<le> 5"
    and st: "0 < startTime (rounds s g)"
    and ch: "\<forall>g'<g. startTime (rounds s (Suc g')) = startTime (rounds s g') + ROUND_DURATION_MS"
    and fc: "freeze_count s = Suc g" and rc: "result_count s = g"
    by (simp_all add: inv_def Let_def g cur_def ts)
  have p2: "pending ?s2 = []" "allocated ?s2 = Suc g" by (simp_all add: settle_fields q a)
  have r2: "\<And>g'. g' \<noteq> g \<Longrightarrow> rounds ?s2 g' = rounds s g'"
    "winningLine (rounds ?s2 g) = Some (draw_line u)"
    "\<And>g'. startTime (rounds ?s2 g') = startTime (rounds s g')"
    by (simp_all add: settle_rounds)
  have c: "currentRound ?s' = Suc g" "allocated ?s' = Suc (Suc g)"
    by (simp_all add: rollover_fields p2)
  have t: "targets ?s' = [(Suc g, TStart), (Suc g, TFreeze), (Suc g, TResult)]"
    using rollover_targets[OF p2(1), of g now2] by (simp add: p2)
  have nz: "startTime (rounds s g) + ROUND_DURATION_MS \<noteq> 0"
    "0 < startTime (rounds s g) + ROUND_DURATION_MS"
    using st by (simp_all add: ROUND_DURATION_MS_def)
  have new: "winningLine (rounds ?s' (Suc g)) = None"
    "startTime (rounds ?s' (Suc g)) = startTime (rounds s g) + ROUND_DURATION_MS"
    "freezeTime (rounds ?s' (Suc g)) = startTime (rounds s g) + ROUND_DURATION_MS + FREEZE_OFFSET_MS"
    "resultTime (rounds ?s' (Suc g)) = startTime (rounds s g) + ROUND_DURATION_MS + RESULT_OFFSET_MS"
    using rollover_new[of ?s2 g now2] nz by (simp_all add: p2 r2)
  have old: "\<And>g'. g' \<le> g \<Longrightarrow> winningLine (rounds ?s' g') = winningLine (rounds ?s2 g')"
    "\<And>g'. g' \<le> g \<Longrightarrow> startTime (rounds ?s' g') = startTime (rounds s g')"
    using rollover_old(2,3)[of _ ?s2 g now2] by (simp_all add: p2 r2)
  have w': "\<forall>g'<Suc g. \<exists>w. winningLine (rounds ?s' g') = Some w \<and> 1 \<le> w \<and> w \<le> 5"
  proof (intro allI impI)
    fix g' assume "g' < Suc g"
    then consider "g' < g" | "g' = g" by linarith
    then show "\<exists>w. winningLine (rounds ?s' g') = Some w \<and> 1 \<le> w \<and> w \<le> 5"
    proof cases
      case 1 then show ?thesis using w by (simp add: old r2)
    next
      case 2 then show ?thesis using draw_line_range[OF assms(3,4)] by (simp add: old r2)
    qed
  qed
  have ch': "\<forall>g'<Suc g. startTime (rounds ?s' (Suc g')) = startTime (rounds ?s' g') + ROUND_DURATION_MS"
  proof (intro allI impI)
    fix g' assume "g' < Suc g"
    then consider "g' < g" | "g' = g" by linarith
    then show "startTime (rounds ?s' (Suc g')) = startTime (rounds ?s' g') + ROUND_DURATION_MS"
    proof cases
      case 1 then show ?thesis using ch by (simp add: old)
    next
      case 2 then show ?thesis by (simp add: old new)
    qed
  qed
  have bs: "broadcasts ?s' = broadcasts s @ [RoundResult (result_round_id (rounds ?s2 g)) (draw_line u) now]"
    using settle_broadcasts[of ?s1 g u now pflt flts]
    by (simp add: broadcasts_def rollover_fields)
  have b: "freeze_count ?s' = Suc g" "result_count ?s' = Suc g"
    using fc rc by (simp_all add: freeze_count_def result_count_def bs is_freeze_def is_result_def)
  show ?thesis
    unfolding emitRoundResultAndProcess_def inv_def Let_def c t b cur_def
    using w' ch' nz by (simp add: new FREEZE_OFFSET_MS_def RESULT_OFFSET_MS_def)
qed

lemma inv_fire:
  assumes "inv s" "0 \<le> u" "u < 1"
  shows "inv (fire s now u now2 pflt flts)"
proof (cases "pending s")
  case Nil
  then show ?thesis using assms(1) by (simp add: fire_def)
next
  case (Cons t q)
  obtain due i g k where t: "t = (due, i, g, k)" by (cases t) auto
  show ?thesis
  proof (cases "now < due")
    case True
    then show ?thesis using assms(1) Cons t by (simp add: fire_def)
  next
    case False
    show ?thesis
    proof (cases k)
      case TStart
      then show ?thesis using inv_fire_start[OF assms(1), of due i g q now pflt] Cons t False
        by (simp add: fire_def)
    next
      case TFreeze
      then show ?thesis using inv_fire_freeze[OF assms(1), of due i g q now] Cons t False
        by (simp add: fire_def)
    next
      case TResult
      then show ?thesis
        using inv_fire_result[OF assms(1) _ assms(2,3), of due i g q now now2 pflt flts] Cons t False
        by (simp add: fire_def)
    qed
  qed
qed

lemma same_schedule_socket:
  "same_schedule s (authenticate s sock tok flt)"
  "same_schedule s (join_game s sock now)"
  "same_schedule s (place_bet s sock dat)"
  "same_schedule s (submit_final_bets s sock p flt)"
  "same_schedule s (disconnect s sock)"
  by (simp_all add: same_schedule_authenticate same_schedule_join_game same_schedule_place_bet
      same_schedule_submit_core same_schedule_disconnect submit_final_bets_def)

lemma inv_step: "inv s \<Longrightarrow> wf_event e \<Longrightarrow> inv (step s e)"
  by (cases e) (simp_all add: inv_fire inv_same_schedule[OF _ same_schedule_socket(1)]
      inv_same_schedule[OF _ same_schedule_socket(2)] inv_same_schedule[OF _ same_schedule_socket(3)]
      inv_same_schedule[OF _ same_schedule_socket(4)] inv_same_schedule[OF _ same_schedule_socket(5)])

lemma inv_bootstrap:
  assumes "0 < t0"
  shows "inv (bootstrap us txs pbs grs t0 now)"
proof -
  define r1 where "r1 = (if startTime (createRound t0 t0) + ROUND_DURATION_MS \<le> now
     then createRound (startTime (createRound t0 t0) +
            ((now - startTime (createRound t0 t0)) div ROUND_DURATION_MS + 1) * ROUND_DURATION_MS) now
     else createRound t0 t0)"
  define s where "s = \<lparr> rounds = (\<lambda>_. r1), currentRound = 0, allocated = 1, timer_seq = 0,
     pending = [], userSessions = [], users = us, transactions = txs, player_bets = pbs,
     game_rounds = grs, emitted = [] \<rparr>"
  have b: "bootstrap us txs pbs grs t0 now = scheduleRoundTimers s 0 now"
    by (simp add: bootstrap_def Let_def r1_def s_def)
  have s0: "startTime (createRound t0 t0) = t0" using assms by (simp add: createRound_fields)
  have pos: "0 < startTime r1"
  proof (cases "t0 + ROUND_DURATION_MS \<le> now")
    case False then show ?thesis using assms by (simp add: r1_def s0)
  next
    case True
    then have "0 \<le> (now - t0) div ROUND_DURATION_MS"
      by (simp add: ROUND_DURATION_MS_def)
    then have "0 < t0 + ((now - t0) div ROUND_DURATION_MS + 1) * ROUND_DURATION_MS"
      using assms by (simp add: ROUND_DURATION_MS_def)
    then show ?thesis using True by (simp add: r1_def s0 createRound_fields)
  qed
  have ord: "startTime r1 \<le> freezeTime r1" "freezeTime r1 \<le> resultTime r1"
    by (simp_all add: r1_def createRound_fields FREEZE_OFFSET_MS_def RESULT_OFFSET_MS_def)
  have wl: "winningLine r1 = None" by (simp add: r1_def createRound_fields)
  have sf: "pending s = []" "rounds s 0 = r1" "currentRound s = 0" "allocated s = 1" "emitted s = []"
    by (simp_all add: s_def)
  have t: "targets (scheduleRoundTimers s 0 now) = [(0, TStart), (0, TFreeze), (0, TResult)]"
    by (rule scheduleRoundTimers_pending) (use ord sf in simp_all)
  have f: "currentRound (scheduleRoundTimers s 0 now) = 0" "allocated (scheduleRoundTimers s 0 now) = 1"
    "emitted (scheduleRoundTimers s 0 now) = []"
    by (simp_all add: scheduleRoundTimers_fields sf)
  have r: "winningLine (rounds (scheduleRoundTimers s 0 now) 0) = winningLine r1"
    "startTime (rounds (scheduleRoundTimers s 0 now) 0) = startTime r1"
    "freezeTime (rounds (scheduleRoundTimers s 0 now) 0) = freezeTime r1"
    "resultTime (rounds (scheduleRoundTimers s 0 now) 0) = resultTime r1"
    by (simp_all add: scheduleRoundTimers_rounds sf)
  show ?thesis
    unfolding b inv_def Let_def f t r cur_def
    using pos ord wl by (simp add: freeze_count_def result_count_def broadcasts_def f)
qed

lemma reachable_inv: "reachable s \<Longrightarrow> inv s"
  by (induction rule: reachable.induct) (simp_all add: inv_bootstrap inv_step)

section \<open>Runs of the timer-driven engine\<close>

lemma socket_frame:
  assumes "same_schedule s s'"
  shows "g \<noteq> currentRound s \<Longrightarrow> rounds s' g = rounds s g"
    and "winningLine (rounds s' g) = winningLine (rounds s g)"
    and "new_broadcasts s s' = []"
    and "currentRound s' = currentRound s"
  using assms by (simp_all add: same_schedule_def new_broadcasts_def)

lemma result_round_id_timers: "result_round_id (r\<lparr>timers := x\<rparr>) = result_round_id r"
  by (simp add: result_round_id_def split: option.splits)

lemma fire_idle:
  assumes "pending s = [] \<or> (\<exists>due i g k q. pending s = (due, i, g, k) # q \<and> now < due)"
  shows "fire s now u now2 pflt flts = s"
  using assms by (auto simp: fire_def)

lemma fire_start:
  assumes "inv s" "pending s = (due, i, g, TStart) # q" "\<not> now < due"
  shows "g = currentRound s"
    and "g' \<noteq> g \<Longrightarrow> rounds (fire s now u now2 pflt flts) g' = rounds s g'"
    and "winningLine (rounds (fire s now u now2 pflt flts) g') = winningLine (rounds s g')"
    and "new_broadcasts s (fire s now u now2 pflt flts) =
           [StartRound (startTime (cur s)) now (max 0 (freezeTime (cur s) - now))
              (max 0 (resultTime (cur s) - now))]"
    and "currentRound (fire s now u now2 pflt flts) = currentRound s"
proof -
  show g: "g = currentRound s" using assms by (auto simp: inv_def Let_def targets_def)
  have f: "fire s now u now2 pflt flts = emitStartRound (s\<lparr>pending := q\<rparr>) g now pflt"
    using assms by (simp add: fire_def)
  show "g' \<noteq> g \<Longrightarrow> rounds (fire s now u now2 pflt flts) g' = rounds s g'"
    by (simp add: f emitStartRound_def Let_def persistRoundStart_rounds emit_fields)
  show "winningLine (rounds (fire s now u now2 pflt flts) g') = winningLine (rounds s g')"
    by (simp add: f emitStartRound_def Let_def persistRoundStart_rounds emit_fields)
  show "new_broadcasts s (fire s now u now2 pflt flts) =
           [StartRound (startTime (cur s)) now (max 0 (freezeTime (cur s) - now))
              (max 0 (resultTime (cur s) - now))]"
    by (simp add: f new_broadcasts_def broadcasts_def emitStartRound_def Let_def
        persistRoundStart_fields emit_fields cur_def g)
  show "currentRound (fire s now u now2 pflt flts) = currentRound s"
    by (simp add: f emitStartRound_def Let_def persistRoundStart_fields emit_fields)
qed

lemma fire_freeze:
  assumes "inv s" "pending s = (due, i, g, TFreeze) # q" "\<not> now < due"
  shows "g = currentRound s"
    and "rounds (fire s now u now2 pflt flts) = rounds s"
    and "new_broadcasts s (fire s now u now2 pflt flts) = [FreezeBets (startTime (cur s)) now]"
    and "currentRound (fire s now u now2 pflt flts) = currentRound s"
proof -
  show g: "g = currentRound s" using assms by (auto simp: inv_def Let_def targets_def)
  have f: "fire s now u now2 pflt flts = emitFreezeBets (s\<lparr>pending := q\<rparr>) g now"
    using assms by (simp add: fire_def)
  show "rounds (fire s now u now2 pflt flts) = rounds s"
    by (simp add: f emitFreezeBets_def emit_fields)
  show "new_broadcasts s (fire s now u now2 pflt flts) = [FreezeBets (startTime (cur s)) now]"
    by (simp add: f new_broadcasts_def broadcasts_def emitFreezeBets_def emit_fields cur_def g)
  show "currentRound (fire s now u now2 pflt flts) = currentRound s"
    by (simp add: f emitFreezeBets_def emit_fields)
qed

lemma fire_result:
  assumes "inv s" "pending s = (due, i, g, TResult) # q" "\<not> now < due"
  shows "g = currentRound s"
    and "frozen_announced s"
    and "g' < g \<Longrightarrow> rounds (fire s now u now2 pflt flts) g' = rounds s g'"
    and "winningLine (rounds (fire s now u now2 pflt flts) g) = Some (draw_line u)"
    and "new_broadcasts s (fire s now u now2 pflt flts) =
           [RoundResult (result_round_id (rounds (fire s now u now2 pflt flts) g)) (draw_line u) now]"
    and "currentRound (fire s now u now2 pflt flts) = Suc (currentRound s)"
    and "startTime (cur (fire s now u now2 pflt flts)) = startTime (cur s) + ROUND_DURATION_MS"
proof -
  let ?s1 = "s\<lparr>pending := q\<rparr>"
  let ?s2 = "settle ?s1 g u now pflt flts"
  from assms show g: "g = currentRound s" by (auto simp: inv_def Let_def targets_def)
  from assms have ts: "targets s = [(g, TResult)]" by (auto simp: inv_def Let_def targets_def)
  from assms(1) have a: "allocated s = Suc g" and st: "0 < startTime (rounds s g)"
    by (simp_all add: inv_def Let_def g cur_def)
  show "frozen_announced s" using assms(1) ts by (simp add: inv_def Let_def g)
  have f: "fire s now u now2 pflt flts = rollover ?s2 g now2"
    using assms by (simp add: fire_def emitRoundResultAndProcess_def)
  have a2: "allocated ?s2 = Suc g" by (simp add: settle_fields a)
  show "g' < g \<Longrightarrow> rounds (fire s now u now2 pflt flts) g' = rounds s g'"
    by (simp add: f rollover_old(1) a2 settle_rounds)
  show "winningLine (rounds (fire s now u now2 pflt flts) g) = Some (draw_line u)"
    by (simp add: f rollover_old(2) a2 settle_rounds)
  have rr: "result_round_id (rounds (rollover ?s2 g now2) g) = result_round_id (rounds ?s2 g)"
    by (simp add: rollover_def Let_def scheduleRoundTimers_rounds clearRoundTimers_fields
        result_round_id_timers a2)
  have "broadcasts (rollover ?s2 g now2) = broadcasts ?s2"
    by (simp add: broadcasts_def rollover_fields)
  moreover have "broadcasts ?s1 = broadcasts s" by (simp add: broadcasts_def)
  ultimately show "new_broadcasts s (fire s now u now2 pflt flts) =
           [RoundResult (result_round_id (rounds (fire s now u now2 pflt flts) g)) (draw_line u) now]"
    using settle_broadcasts[of ?s1 g u now pflt flts]
    by (simp add: f new_broadcasts_def rr)
  show "currentRound (fire s now u now2 pflt flts) = Suc (currentRound s)"
    by (simp add: f rollover_fields a2 g[symmetric])
  have "startTime (rounds ?s2 g) + ROUND_DURATION_MS \<noteq> 0"
    using st by (simp add: settle_rounds ROUND_DURATION_MS_def)
  then show "startTime (cur (fire s now u now2 pflt flts)) = startTime (cur s) + ROUND_DURATION_MS"
    using rollover_new(2)[of ?s2 g now2]
    by (simp add: f cur_def rollover_fields settle_rounds g[symmetric])
qed

lemma fire_kinds:
  obtains (idle) "fire s now u now2 pflt flts = s"
  | (start) due i g q where "pending s = (due, i, g, TStart) # q" "\<not> now < due"
  | (freeze) due i g q where "pending s = (due, i, g, TFreeze) # q" "\<not> now < due"
  | (result) due i g q where "pending s = (due, i, g, TResult) # q" "\<not> now < due"
proof (cases "pending s")
  case Nil
  then show ?thesis using idle by (simp add: fire_def)
next
  case (Cons t q)
  obtain due i g k where t: "t = (due, i, g, k)" by (cases t) auto
  show ?thesis
  proof (cases "now < due")
    case True
    then show ?thesis using idle Cons t by (simp add: fire_def)
  next
    case False
    then show ?thesis using start freeze result Cons t by (cases k) auto
  qed
qed

lemma fire_frame:
  assumes "inv s" "g' < currentRound s"
  shows "rounds (fire s now u now2 pflt flts) g' = rounds s g'"
proof (cases rule: fire_kinds[of s now u now2 pflt flts])
  case idle
  then show ?thesis by simp
next
  case (start due i g q)
  show ?thesis using fire_start(1,2)[OF assms(1) start] assms(2) by simp
next
  case (freeze due i g q)
  show ?thesis using fire_freeze(2)[OF assms(1) freeze] by simp
next
  case (result due i g q)
  show ?thesis using fire_result(1,3)[OF assms(1) result] assms(2) by simp
qed

lemma step_frame:
  assumes "inv s" "g' < currentRound s"
  shows "rounds (step s e) g' = rounds s g'"
proof (cases e)
  case (Fire now u now2 pflt flts)
  then show ?thesis using fire_frame[OF assms] by simp
next
  case (OnAuthenticate sock tok flt)
  then show ?thesis using socket_frame(1)[OF same_schedule_socket(1)] assms(2) by simp
next
  case (OnJoinGame sock now)
  then show ?thesis using socket_frame(1)[OF same_schedule_socket(2)] assms(2) by simp
next
  case (OnPlaceBet sock dat)
  then show ?thesis using socket_frame(1)[OF same_schedule_socket(3)] assms(2) by simp
next
  case (OnSubmitFinalBets sock p flt)
  then show ?thesis using socket_frame(1)[OF same_schedule_socket(4)] assms(2) by simp
next
  case (OnDisconnect sock)
  then show ?thesis using socket_frame(1)[OF same_schedule_socket(5)] assms(2) by simp
qed

lemma fire_draw:
  assumes "inv s" "0 \<le> u" "u < 1"
    "winningLine (rounds (fire s now u now2 pflt flts) (currentRound s)) \<noteq> None"
  shows "frozen_announced s \<and> currentRound (fire s now u now2 pflt flts) = Suc (currentRound s) \<and>
     winningLine (rounds (fire s now u now2 pflt flts) (currentRound s)) = Some (draw_line u)"
proof (cases rule: fire_kinds[of s now u now2 pflt flts])
  case idle
  then show ?thesis using assms(1,4) by (simp add: inv_def Let_def cur_def)
next
  case (start due i g q)
  show ?thesis using fire_start(3)[OF assms(1) start] assms(1,4)
    by (simp add: inv_def Let_def cur_def)
next
  case (freeze due i g q)
  show ?thesis using fire_freeze(2)[OF assms(1) freeze] assms(1,4)
    by (simp add: inv_def Let_def cur_def)
next
  case (result due i g q)
  show ?thesis using fire_result(1,2,4,6)[OF assms(1) result] by simp
qed

lemma socket_no_draw:
  assumes "inv s" "same_schedule s s'"
  shows "winningLine (rounds s' (currentRound s)) = None"
  using assms socket_frame(2)[OF assms(2), of "currentRound s"] by (simp add: inv_def Let_def cur_def)

section \<open>Example runs, evaluated\<close>

lemma demo_eval: "demo =
   \<lparr> rounds = (\<lambda>_. \<lparr> startTime = 1000000, freezeTime = 1025000, resultTime = 1030000,
         endTime = 1040000, persistedRoundId = None, winningLine = None, bets = [], finalBets = [],
         timers = [], startAnnounced = False, freezeAnnounced = False \<rparr>)
       (0 := \<lparr> startTime = 1000000, freezeTime = 1025000, resultTime = 1030000,
         endTime = 1040000, persistedRoundId = None, winningLine = None, bets = [], finalBets = [],
         timers = [(TStart, 0), (TFreeze, Suc 0), (TResult, Suc (Suc 0))], startAnnounced = False,
         freezeAnnounced = False \<rparr>),
     currentRound = 0, allocated = 1, timer_seq = 3,
     pending = [(1000000, 0, 0, TStart), (1025000, Suc 0, 0, TFreeze), (1030000, Suc (Suc 0), 0, TResult)],
     userSessions = [(''sockA'', \<lparr> userId = 1, username = ''alice'', balance = 1000 \<rparr>)],
     users = demo_users, transactions = [], player_bets = [], game_rounds = [],
     emitted = [(To ''sockA'', Authenticated 1 1000)] \<rparr>"
  by (simp add: demo_def demo_users_def bootstrap_def createRound_def
  scheduleRoundTimers_def setTimeout_def authenticate_def emit_def Let_def
  FREEZE_OFFSET_MS_def RESULT_OFFSET_MS_def ROUND_DURATION_MS_def)

lemma demo_frozen_eval: "demo_frozen =
   \<lparr> rounds = (\<lambda>_. \<lparr> startTime = 1000000, freezeTime = 1025000, resultTime = 1030000,
         endTime = 1040000, persistedRoundId = None, winningLine = None, bets = [], finalBets = [],
         timers = [], startAnnounced = False, freezeAnnounced = False \<rparr>)
       (0 := \<lparr> startTime = 1000000, freezeTime = 1025000, resultTime = 1030000,
         endTime = 1040000, persistedRoundId = Some (Suc 0), winningLine = None, bets = [], finalBets = [],
         timers = [(TStart, 0), (TFreeze, Suc 0), (TResult, Suc (Suc 0))], startAnnounced = False,
         freezeAnnounced = False \<rparr>),
     currentRound = 0, allocated = 1, timer_seq = 3,
     pending = [(1030000, Suc (Suc 0), 0, TResult)],
     userSessions = [(''sockA'', \<lparr> userId = 1, username = ''alice'', balance = 1000 \<rparr>)],
     users = demo_users, transactions = [], player_bets = [],
     game_rounds = [\<lparr> gr_start = 1000000, gr_end = None, gr_winning_line = None \<rparr>],
     emitted = [(To ''sockA'', Authenticated 1 1000),
                (Broadcast, StartRound 1000000 1000000 25000 30000),
                (Broadcast, FreezeBets 1000000 1025000)] \<rparr>"
  by (simp add: demo_frozen_def demo_eval fire_def emitStartRound_def persistRoundStart_def
      emit_def Let_def emitFreezeBets_def)

lemma reachable_demo: "reachable demo"
  unfolding demo_def
  using reach_step[OF reach_start[of 1000000 demo_users "[]" "[]" "[]" 1000000], of "OnAuthenticate ''sockA'' (Token 1) NoFault"]
  by simp

lemma reachable_demo_frozen: "reachable demo_frozen"
  unfolding demo_frozen_def
  using reach_step[OF reach_step[OF reachable_demo, of "Fire 1000000 0 1000000 NoFault (\<lambda>_. NoFault)"],
     of "Fire 1025000 0 1025000 NoFault (\<lambda>_. NoFault)"]
  by simp

lemma demo_draw:
  "winningLine (rounds (step demo_frozen (Fire 1030000 (1/2) 1030050 NoFault (\<lambda>_. NoFault))) 0) = Some 3"
  by (simp add: demo_frozen_eval fire_def emitRoundResultAndProcess_def rollover_old(2)
      settle_fields settle_rounds draw_line_def)

section \<open>Superseded rounds\<close>

lemma inv_pending_current:
  assumes "inv s" "(due, i, g, k) \<in> set (pending s)"
  shows "g = currentRound s"
proof -
  have "(g, k) \<in> set (targets s)"
    using assms(2) by (force simp: targets_def)
  then show ?thesis using assms(1) by (auto simp: inv_def Let_def)
qed

lemma inv_start_times:
  assumes "inv s" "g \<le> currentRound s"
  shows "startTime (rounds s g) = startTime (rounds s 0) + int g * ROUND_DURATION_MS"
  using assms(2)
proof (induction g)
  case 0
  then show ?case by simp
next
  case (Suc g)
  then have "startTime (rounds s (Suc g)) = startTime (rounds s g) + ROUND_DURATION_MS"
    using assms(1) by (simp add: inv_def Let_def)
  then show ?case using Suc by (simp add: algebra_simps)
qed

lemma inv_start_increasing:
  assumes "inv s" "g < currentRound s"
  shows "startTime (rounds s g) < startTime (cur s)"
  using inv_start_times[OF assms(1), of g] inv_start_times[OF assms(1), of "currentRound s"] assms(2)
  by (simp add: cur_def ROUND_DURATION_MS_def)

lemma fire_broadcasts:
  assumes "inv s"
  shows "\<forall>m\<in>set (new_broadcasts s (fire s now u now2 pflt flts)).
           about_round (cur s) (rounds (fire s now u now2 pflt flts) (currentRound s)) m"
proof (cases rule: fire_kinds[of s now u now2 pflt flts])
  case idle
  then show ?thesis by (simp add: new_broadcasts_def)
next
  case (start due i g q)
  show ?thesis using fire_start(4)[OF assms start] by (simp add: about_round_def)
next
  case (freeze due i g q)
  show ?thesis using fire_freeze(3)[OF assms freeze] by (simp add: about_round_def)
next
  case (result due i g q)
  show ?thesis using fire_result(1,4,5)[OF assms result] by (simp add: about_round_def)
qed

lemma step_broadcasts:
  assumes "inv s"
  shows "\<forall>m\<in>set (new_broadcasts s (step s e)).
           about_round (cur s) (rounds (step s e) (currentRound s)) m"
proof (cases e)
  case (Fire now u now2 pflt flts)
  then show ?thesis using fire_broadcasts[OF assms] by simp
next
  case (OnAuthenticate sock tok flt)
  then show ?thesis using socket_frame(3)[OF same_schedule_socket(1)] by simp
next
  case (OnJoinGame sock now)
  then show ?thesis using socket_frame(3)[OF same_schedule_socket(2)] by simp
next
  case (OnPlaceBet sock dat)
  then show ?thesis using socket_frame(3)[OF same_schedule_socket(3)] by simp
next
  case (OnSubmitFinalBets sock p flt)
  then show ?thesis using socket_frame(3)[OF same_schedule_socket(4)] by simp
next
  case (OnDisconnect sock)
  then show ?thesis using socket_frame(3)[OF same_schedule_socket(5)] by simp
qed

section \<open>Finalizing: \<^verbatim>\<open>submit_final_bets\<close>\<close>

lemma submit_core_reject:
  "\<not> submit_ok s sock p flt \<Longrightarrow> \<exists>m. submit_core c s sock p flt = emit (To sock) (BetError m) s"
  by (cases flt) (auto simp: submit_ok_def submit_core_def split: option.splits)

lemma submit_core_accept:
  assumes "map_of (userSessions s) sock = Some sess" "userId sess \<noteq> 0"
    "p_roundId p = startTime (cur s)" "flt = NoFault" "users s (userId sess) = Some (n, b)"
    "\<not> b < submitted_total p"
  shows "submit_core c s sock p flt = commit_bets s sock (userId sess) b p"
  using assms by (simp add: submit_core_def)

lemma commit_bets_fields:
  "response s (commit_bets s sock uid b p) = [(To sock, BetAccepted (b - submitted_total p))]"
  "users (commit_bets s sock uid b p) = add_balance uid (- submitted_total p) (users s)"
  "transactions (commit_bets s sock uid b p) =
     transactions s @ bet_entries uid (startTime (cur s)) (p_bets p)"
  "player_bets (commit_bets s sock uid b p) =
     player_bets s @ bet_rows (persistedRoundId (cur s)) uid (p_bets p)"
  "finalized (commit_bets s sock uid b p) sock =
     Some \<lparr> s_userId = uid, s_bets = p_bets p, s_totalAmount = submitted_total p \<rparr>"
  "finalBets (cur (commit_bets s sock uid b p)) = AList.update sock
     \<lparr> s_userId = uid, s_bets = p_bets p, s_totalAmount = submitted_total p \<rparr> (finalBets (cur s))"
  "userSessions (commit_bets s sock uid b p) =
     set_session_balance sock (b - submitted_total p) (userSessions s)"
  by (simp_all add: commit_bets_def Let_def response_def emit_def finalized_def cur_def update_conv')

lemma accepted_emit_error: "\<not> accepted s (emit t (BetError m) s)"
  by (simp add: accepted_def response_emit)


lemma accepted_iff: "accepted s (submit_core c s sock p flt) = submit_ok s sock p flt"
proof (cases "submit_ok s sock p flt")
  case False
  from submit_core_reject[OF this] obtain m
    where "submit_core c s sock p flt = emit (To sock) (BetError m) s" by blast
  then show ?thesis using False by (simp add: accepted_emit_error)
next
  case True
  then obtain sess n b where h: "map_of (userSessions s) sock = Some sess" "userId sess \<noteq> 0"
    "p_roundId p = startTime (cur s)" "flt = NoFault" "users s (userId sess) = Some (n, b)"
    "\<not> b < submitted_total p"
    by (auto simp: submit_ok_def split: option.splits)
  show ?thesis using True
    by (simp add: submit_core_accept[OF h] accepted_def commit_bets_fields)
qed

lemma submit_core_effect:
  fixes s sock p flt c
  defines "s' \<equiv> submit_core c s sock p flt"
  shows "(accepted s s' \<longrightarrow>
       (\<exists>sess n b. map_of (userSessions s) sock = Some sess \<and> users s (userId sess) = Some (n, b) \<and>
          submitted_total p \<le> b \<and>
          response s s' = [(To sock, BetAccepted (b - submitted_total p))] \<and>
          users s' = (users s)(userId sess := Some (n, b - submitted_total p)) \<and>
          transactions s' = transactions s @ bet_entries (userId sess) (startTime (cur s)) (p_bets p) \<and>
          finalized s' sock = Some \<lparr> s_userId = userId sess, s_bets = p_bets p,
                                      s_totalAmount = submitted_total p \<rparr>)) \<and>
     (\<not> accepted s s' \<longrightarrow>
        users s' = users s \<and> transactions s' = transactions s \<and> player_bets s' = player_bets s \<and>
        rounds s' = rounds s)"
proof (cases "submit_ok s sock p flt")
  case False
  from submit_core_reject[OF this] obtain m
    where "s' = emit (To sock) (BetError m) s" unfolding s'_def by blast
  then show ?thesis by (simp add: accepted_emit_error emit_fields)
next
  case True
  then obtain sess n b where h: "map_of (userSessions s) sock = Some sess" "userId sess \<noteq> 0"
    "p_roundId p = startTime (cur s)" "flt = NoFault" "users s (userId sess) = Some (n, b)"
    "\<not> b < submitted_total p"
    by (auto simp: submit_ok_def split: option.splits)
  have e: "s' = commit_bets s sock (userId sess) b p"
    unfolding s'_def by (rule submit_core_accept[OF h])
  have "accepted s s'" using True accepted_iff[of s c sock p flt] by (simp add: s'_def)
  then show ?thesis using h
    by (simp add: e commit_bets_fields add_balance_def)
qed

lemma submit_final_bets_effect:
  "(accepted s (submit_final_bets s sock p flt) \<longrightarrow>
       (\<exists>sess n b. map_of (userSessions s) sock = Some sess \<and> users s (userId sess) = Some (n, b) \<and>
          submitted_total p \<le> b \<and>
          response s (submit_final_bets s sock p flt) = [(To sock, BetAccepted (b - submitted_total p))] \<and>
          users (submit_final_bets s sock p flt) = (users s)(userId sess := Some (n, b - submitted_total p)) \<and>
          transactions (submit_final_bets s sock p flt) =
            transactions s @ bet_entries (userId sess) (startTime (cur s)) (p_bets p) \<and>
          finalized (submit_final_bets s sock p flt) sock =
            Some \<lparr> s_userId = userId sess, s_bets = p_bets p, s_totalAmount = submitted_total p \<rparr>)) \<and>
     (\<not> accepted s (submit_final_bets s sock p flt) \<longrightarrow>
        users (submit_final_bets s sock p flt) = users s \<and>
        transactions (submit_final_bets s sock p flt) = transactions s \<and>
        player_bets (submit_final_bets s sock p flt) = player_bets s \<and>
        rounds (submit_final_bets s sock p flt) = rounds s)"
  unfolding submit_final_bets_def by (rule submit_core_effect)

lemma submit_final_bets_iv_effect:
  "(accepted s (submit_final_bets_iv s sock p flt) \<longrightarrow>
       (\<exists>sess n b. map_of (userSessions s) sock = Some sess \<and> users s (userId sess) = Some (n, b) \<and>
          submitted_total p \<le> b \<and>
          response s (submit_final_bets_iv s sock p flt) = [(To sock, BetAccepted (b - submitted_total p))] \<and>
          users (submit_final_bets_iv s sock p flt) = (users s)(userId sess := Some (n, b - submitted_total p)) \<and>
          transactions (submit_final_bets_iv s sock p flt) =
            transactions s @ bet_entries (userId sess) (startTime (cur s)) (p_bets p) \<and>
          finalized (submit_final_bets_iv s sock p flt) sock =
            Some \<lparr> s_userId = userId sess, s_bets = p_bets p, s_totalAmount = submitted_total p \<rparr>)) \<and>
     (\<not> accepted s (submit_final_bets_iv s sock p flt) \<longrightarrow>
        users (submit_final_bets_iv s sock p flt) = users s \<and>
        transactions (submit_final_bets_iv s sock p flt) = transactions s \<and>
        player_bets (submit_final_bets_iv s sock p flt) = player_bets s \<and>
        rounds (submit_final_bets_iv s sock p flt) = rounds s)"
  unfolding submit_final_bets_iv_def by (rule submit_core_effect)

lemma submitted_total_default:
  "p_totalAmount p = None \<or> p_totalAmount p = Some 0 \<Longrightarrow>
   submitted_total p = sum_list (map snd (p_bets p))"
  by (auto simp: submitted_total_def sum_values_sum_list)

subsection \<open>The example run, finalized\<close>

lemma demo_frozen_commit:
  assumes "p_roundId p = 1000000" "submitted_total p \<le> 1000"
  shows "submit_final_bets demo_frozen ''sockA'' p NoFault = commit_bets demo_frozen ''sockA'' 1 1000 p"
  using assms
  by (simp add: submit_final_bets_def submit_core_def demo_frozen_eval cur_def demo_users_def)

lemma demo_commit:
  assumes "p_roundId p = 1000000" "submitted_total p \<le> 1000"
  shows "submit_final_bets demo ''sockA'' p NoFault = commit_bets demo ''sockA'' 1 1000 p"
  using assms
  by (simp add: submit_final_bets_def submit_core_def demo_eval cur_def demo_users_def)

lemma payload_totals:
  "submitted_total cheap_payload = 1" "submitted_total line3_payload = 100"
  "submitted_total empty_payload = 0" "submitted_total big_payload = 5000"
  by (simp_all add: submitted_total_def cheap_payload_def line3_payload_def empty_payload_def
      big_payload_def sum_values_def)

lemma demo_frozen_accepts:
  assumes "p_roundId p = 1000000" "submitted_total p \<le> 1000"
  shows "accepted demo_frozen (submit_final_bets demo_frozen ''sockA'' p NoFault)"
    and "users (submit_final_bets demo_frozen ''sockA'' p NoFault) 1 =
           Some (''alice'', 1000 - submitted_total p)"
    and "finalized (submit_final_bets demo_frozen ''sockA'' p NoFault) ''sockA'' =
           Some \<lparr> s_userId = 1, s_bets = p_bets p, s_totalAmount = submitted_total p \<rparr>"
  by (simp_all add: demo_frozen_commit[OF assms] accepted_def commit_bets_fields add_balance_def)
     (simp add: demo_frozen_eval demo_users_def)


lemma submit_core_mismatch:
  assumes "map_of (userSessions s) sock = Some sess" "userId sess \<noteq> 0"
    "p_roundId p \<noteq> startTime (cur s)"
  shows "submit_core c s sock p flt = emit (To sock) (BetError ''Round mismatch'') s"
  using assms by (simp add: submit_core_def)

lemma submit_core_distinct:
  assumes "distinct (map fst (finalBets (cur s)))"
  shows "distinct (map fst (finalBets (cur (submit_core c s sock p flt))))"
proof (cases "submit_ok s sock p flt")
  case False
  from submit_core_reject[OF this] obtain m
    where "submit_core c s sock p flt = emit (To sock) (BetError m) s" by blast
  then show ?thesis using assms by (simp add: cur_emit)
next
  case True
  then obtain sess n b where h: "map_of (userSessions s) sock = Some sess" "userId sess \<noteq> 0"
    "p_roundId p = startTime (cur s)" "flt = NoFault" "users s (userId sess) = Some (n, b)"
    "\<not> b < submitted_total p"
    by (auto simp: submit_ok_def split: option.splits)
  show ?thesis using assms
    by (simp add: submit_core_accept[OF h] commit_bets_fields distinct_update)
qed

section \<open>Placing: \<^verbatim>\<open>place_bet\<close>\<close>

lemma cur_place_bet: "cur (place_bet s sock dat) =
   (cur s)\<lparr>bets := AList.update sock
      (case dat of None \<Rightarrow> get_bets (init_bets (bets (cur s)) sock) sock
       | Some d \<Rightarrow> apply_bet (get_bets (init_bets (bets (cur s)) sock) sock) d)
      (init_bets (bets (cur s)) sock)\<rparr>"
  by (simp add: place_bet_def cur_def emit_def Let_def split: option.splits)


lemma response_place_bet:
  "response s (place_bet s sock (Some d)) =
     [(To sock, PlaceBetAck (apply_bet (get_bets (init_bets (bets (cur s)) sock) sock) d))]"
  "response s (place_bet_iv s sock (Some d)) =
     [(To sock, PlaceBetAck (apply_bet (get_bets (init_bets (bets (cur s)) sock) sock) d))]"
  by (simp_all add: place_bet_def place_bet_iv_def Let_def response_def emit_def)

section \<open>Settlement: the payouts\<close>

lemma payout_one_ledger:
  assumes "flts (fst e) = NoFault" "s_userId (snd e) \<noteq> 0"
  shows "transactions (payout_one g w now flts s e) =
           transactions s @ spec_win_rows w (persistedRoundId (rounds s g)) [e]"
    and "users (payout_one g w now flts s e) = spec_credits w [e] (users s)"
  using assms
  by (simp_all add: payout_one_def Let_def notify_payee_fields credit_win_def win_amount_def
      spec_win_rows_def spec_credits_def split: prod.splits)

lemma spec_win_rows_Cons: "spec_win_rows w rid (e # es) = spec_win_rows w rid [e] @ spec_win_rows w rid es"
  by (simp add: spec_win_rows_def)

lemma spec_credits_Cons: "spec_credits w (e # es) us = spec_credits w es (spec_credits w [e] us)"
  by (simp add: spec_credits_def)

lemma payout_loop_ledger:
  assumes "\<forall>e\<in>set es. flts (fst e) = NoFault \<and> s_userId (snd e) \<noteq> 0"
  shows "transactions (foldl (payout_one g w now flts) s es) =
           transactions s @ spec_win_rows w (persistedRoundId (rounds s g)) es \<and>
         users (foldl (payout_one g w now flts) s es) = spec_credits w es (users s)"
  using assms
proof (induction es arbitrary: s)
  case Nil
  then show ?case by (simp add: spec_win_rows_def spec_credits_def)
next
  case (Cons e es)
  have h: "flts (fst e) = NoFault" "s_userId (snd e) \<noteq> 0" using Cons.prems by simp_all
  have ih: "transactions (foldl (payout_one g w now flts) (payout_one g w now flts s e) es) =
           transactions (payout_one g w now flts s e) @
             spec_win_rows w (persistedRoundId (rounds (payout_one g w now flts s e) g)) es \<and>
         users (foldl (payout_one g w now flts) (payout_one g w now flts s e) es) =
           spec_credits w es (users (payout_one g w now flts s e))"
    using Cons.IH[of "payout_one g w now flts s e"] Cons.prems by simp
  show ?case
    using ih
    by (simp add: payout_one_ledger[where e=e and flts=flts, OF h] payout_one_fields
        spec_win_rows_Cons[of w _ e es] spec_credits_Cons[of w e es])
qed

lemma settle_ledger:
  assumes "\<forall>k. flts k = NoFault" "\<forall>e\<in>set (finalBets (rounds s g)). s_userId (snd e) \<noteq> 0"
  shows "transactions (settle s g u now pflt flts) =
           transactions s @ spec_win_rows (draw_line u)
             (persistedRoundId (rounds (settle s g u now pflt flts) g)) (finalBets (rounds s g))"
    and "users (settle s g u now pflt flts) =
           spec_credits (draw_line u) (finalBets (rounds s g)) (users s)"
proof -
  let ?s1 = "s\<lparr>rounds := (rounds s)(g := (rounds s g)\<lparr>winningLine := Some (draw_line u)\<rparr>)\<rparr>"
  let ?s2 = "persistRoundResult ?s1 g pflt"
  have f: "finalBets (rounds ?s2 g) = finalBets (rounds s g)"
    by (simp add: persistRoundResult_rounds)
  have p: "persistedRoundId (rounds (settle s g u now pflt flts) g) = persistedRoundId (rounds ?s2 g)"
    by (simp add: settle_rounds persistRoundResult_rounds)
  have a: "\<forall>e\<in>set (finalBets (rounds ?s2 g)). flts (fst e) = NoFault \<and> s_userId (snd e) \<noteq> 0"
    using assms by (simp add: f)
  have t: "transactions ?s2 = transactions s" "users ?s2 = users s"
    by (simp_all add: persistRoundResult_fields)
  have e: "settle s g u now pflt flts =
      emit Broadcast (RoundResult
        (result_round_id (rounds (foldl (payout_one g (draw_line u) now flts) ?s2 (finalBets (rounds ?s2 g))) g))
        (draw_line u) now)
        (foldl (payout_one g (draw_line u) now flts) ?s2 (finalBets (rounds ?s2 g)))"
    by (simp add: settle_def Let_def)
  show "transactions (settle s g u now pflt flts) =
           transactions s @ spec_win_rows (draw_line u)
             (persistedRoundId (rounds (settle s g u now pflt flts) g)) (finalBets (rounds s g))"
    unfolding p using payout_loop_ledger[OF a, of g "draw_line u" now ?s2]
    by (simp add: e emit_fields t f)
  show "users (settle s g u now pflt flts) =
           spec_credits (draw_line u) (finalBets (rounds s g)) (users s)"
    using payout_loop_ledger[OF a, of g "draw_line u" now ?s2]
    by (simp add: e emit_fields t f)
qed

lemma scenario_a:
  assumes "\<forall>k. flts k = NoFault" "map_of (userSessions t) sock = Some sess" "userId sess \<noteq> 0"
    "users t (userId sess) = Some (n, initial)" "100 \<le> initial" "finalBets (cur t) = []"
    "draw_line u = 3"
  shows "users (settle (submit_final_bets t sock
            \<lparr> p_roundId = startTime (cur t), p_bets = [(''line3'', 100)], p_totalAmount = Some 100 \<rparr>
            NoFault) (currentRound t) u now pflt flts) (userId sess) = Some (n, initial - 100 + 500)"
proof -
  let ?p = "\<lparr> p_roundId = startTime (cur t), p_bets = [(''line3'', 100)], p_totalAmount = Some 100 \<rparr>"
  let ?t1 = "submit_final_bets t sock ?p NoFault"
  have tot: "submitted_total ?p = 100" by (simp add: submitted_total_def)
  have e: "?t1 = commit_bets t sock (userId sess) initial ?p"
    unfolding submit_final_bets_def
    by (rule submit_core_accept[OF assms(2,3) _ _ assms(4)]) (use assms(5) in \<open>simp_all add: tot\<close>)
  have c: "currentRound ?t1 = currentRound t"
    using same_schedule_socket(4)[of t sock ?p NoFault] by (simp add: same_schedule_def)
  have "finalBets (cur ?t1) =
      [(sock, \<lparr> s_userId = userId sess, s_bets = [(''line3'', 100)], s_totalAmount = 100 \<rparr>)]"
    unfolding e commit_bets_fields(6) tot assms(6) by simp
  then have f: "finalBets (rounds ?t1 (currentRound t)) =
      [(sock, \<lparr> s_userId = userId sess, s_bets = [(''line3'', 100)], s_totalAmount = 100 \<rparr>)]"
    using c by (simp add: cur_def)
  have u: "users ?t1 = (users t)(userId sess := Some (n, initial - 100))"
    using assms(4) by (simp add: e commit_bets_fields add_balance_def tot)
  have i: "\<forall>e\<in>set (finalBets (rounds ?t1 (currentRound t))). s_userId (snd e) \<noteq> 0"
    using assms(3) by (simp add: f)
  show ?thesis
    using settle_ledger(2)[OF assms(1) i, of u now pflt]
    by (simp add: f u spec_credits_def assms(7) line_key_def obj_get_def WIN_MULTIPLIER_def
        add_balance_def)
qed

section \<open>Settlement: the targeted notification\<close>

lemma session_users_update:
  "map_of ss k = Some se \<Longrightarrow> userId se' = userId se \<Longrightarrow>
   session_users (AList.update k se' ss) = session_users ss"
  by (induction ss) (auto simp: session_users_def)

lemma session_users_map_of:
  "map_of (session_users ss) k = map_option userId (map_of ss k)"
  by (induction ss) (auto simp: session_users_def)

lemma first_session_shape:
  "map_option fst (first_session ss uid) =
   map_option fst (find (\<lambda>ku. snd ku = uid) (session_users ss))"
  by (induction ss) (auto simp: first_session_def session_users_def)

lemma is_first_shape:
  assumes "session_users ss = session_users ss'"
  shows "is_first ss k = is_first ss' k"
proof -
  have m: "map_option userId (map_of ss k) = map_option userId (map_of ss' k)"
    using assms session_users_map_of[of ss k] session_users_map_of[of ss' k] by simp
  have f: "\<And>uid. map_option fst (first_session ss uid) = map_option fst (first_session ss' uid)"
    using assms by (simp add: first_session_shape)
  show ?thesis
    using m f by (auto simp: is_first_def split: option.splits)
qed

lemma first_session_Some:
  assumes "first_session ss uid = Some (k, se)" "distinct (map fst ss)"
  shows "map_of ss k = Some se" "userId se = uid" "is_first ss k"
proof -
  have "(k, se) \<in> set ss \<and> userId se = uid"
    using assms(1) unfolding first_session_def
    by (induction ss) (auto split: if_splits)
  then show m: "map_of ss k = Some se" and u: "userId se = uid"
    using assms(2) by simp_all
  show "is_first ss k" using m u assms(1) by (simp add: is_first_def)
qed

lemma take_length_le: "take (length xs) ys = xs \<Longrightarrow> length xs \<le> length ys"
proof -
  assume "take (length xs) ys = xs"
  then have "length (take (length xs) ys) = length xs" by simp
  then show ?thesis by simp
qed

lemma notified_first_refl: "distinct (map fst (userSessions s)) \<Longrightarrow> notified_first s s"
  by (simp add: notified_first_def response_def)

lemma notified_first_step:
  assumes "notified_first s0 s" "userSessions s' = userSessions s" "emitted s' = emitted s"
  shows "notified_first s0 s'"
  using assms by (simp add: notified_first_def response_def)

lemma notified_first_broadcast:
  assumes "notified_first s0 s"
  shows "notified_first s0 (emit Broadcast m s)"
proof -
  have t: "take (length (emitted s0)) (emitted s) = emitted s0"
    using assms by (simp add: notified_first_def)
  then have l: "length (emitted s0) \<le> length (emitted s)"
    by (rule take_length_le)
  show ?thesis
    using assms l by (auto simp: notified_first_def response_def emit_fields)
qed

lemma notified_first_notify:
  assumes "notified_first s0 s"
  shows "notified_first s0 (notify_payee s rid w uid a now flt)"
proof (cases "first_session (userSessions s) uid")
  case None
  then show ?thesis using assms by (simp add: notify_payee_def)
next
  case (Some kse)
  obtain k se where kse: "kse = (k, se)" by (cases kse) auto
  show ?thesis
  proof (cases "flt = ReadFault")
    case True
    then show ?thesis using assms Some kse by (simp add: notify_payee_def)
  next
    case False
    have d: "distinct (map fst (userSessions s))"
      and sh: "session_users (userSessions s) = session_users (userSessions s0)"
      and t: "take (length (emitted s0)) (emitted s) = emitted s0"
      using assms by (simp_all add: notified_first_def)
    have l: "length (emitted s0) \<le> length (emitted s)"
      using t by (rule take_length_le)
    have fs: "map_of (userSessions s) k = Some se" "is_first (userSessions s) k"
      using first_session_Some[OF Some[unfolded kse] d] by simp_all
    have f0: "is_first (userSessions s0) k"
      using fs(2) is_first_shape[OF sh] by simp
    define nb where "nb = (case users s uid of None \<Rightarrow> balance se | Some (n, b) \<Rightarrow> b)"
    define ss' where "ss' = AList.update k (se\<lparr>balance := nb\<rparr>) (userSessions s)"
    have e: "notify_payee s rid w uid a now flt =
        (emit (To k) (RoundResultTo rid w a nb now) s)\<lparr>userSessions := ss'\<rparr>"
      using Some kse False by (simp add: notify_payee_def Let_def nb_def ss'_def)
    have k_in: "k \<in> set (map fst (userSessions s))"
      using fs(1) by (metis map_of_eq_None_iff option.distinct(1) set_map)
    have d': "distinct (map fst ss')"
      using d by (simp add: ss'_def distinct_update)
    have sh': "session_users ss' = session_users (userSessions s0)"
      using session_users_update[OF fs(1), of "se\<lparr>balance := nb\<rparr>"] sh by (simp add: ss'_def)
    have m: "\<And>k'. k' \<noteq> k \<Longrightarrow> map_of ss' k' = map_of (userSessions s) k'"
      by (simp add: ss'_def update_conv')
    have old: "\<forall>k'. \<not> is_first (userSessions s0) k' \<longrightarrow>
        map_of (userSessions s) k' = map_of (userSessions s0) k'"
      using assms by (simp add: notified_first_def)
    have m0: "\<forall>k'. \<not> is_first (userSessions s0) k' \<longrightarrow>
        map_of ss' k' = map_of (userSessions s0) k'"
    proof (intro allI impI)
      fix k' assume n: "\<not> is_first (userSessions s0) k'"
      then have "k' \<noteq> k" using f0 by auto
      then show "map_of ss' k' = map_of (userSessions s0) k'" using m old n by simp
    qed
    have r: "\<forall>tm\<in>set (response s0 s). \<forall>k. fst tm = To k \<longrightarrow> is_first (userSessions s0) k"
      using assms by (simp add: notified_first_def)
    have r': "\<forall>tm\<in>set (response s0 (notify_payee s rid w uid a now flt)).
        \<forall>k. fst tm = To k \<longrightarrow> is_first (userSessions s0) k"
      using r l f0 by (auto simp: e response_def emit_fields)
    show ?thesis
      unfolding notified_first_def
      using d' sh' m0 r' t l by (simp add: e emit_fields)
  qed
qed

lemma notified_first_payout_one:
  assumes "notified_first s0 s"
  shows "notified_first s0 (payout_one g w now flts s e)"
proof -
  have c: "\<And>uid rid a flt. notified_first s0 (credit_win s uid w rid a flt)"
    by (rule notified_first_step[OF assms]) (simp_all add: credit_win_fields)
  show ?thesis
    using assms c by (simp add: payout_one_def Let_def notified_first_notify)
qed

lemma notified_first_loop:
  assumes "notified_first s0 s"
  shows "notified_first s0 (foldl (payout_one g w now flts) s es)"
  using assms by (induction es arbitrary: s) (simp_all add: notified_first_payout_one)

lemma notified_first_settle:
  assumes "distinct (map fst (userSessions s))"
  shows "notified_first s (settle s g u now pflt flts)"
proof -
  let ?s1 = "s\<lparr>rounds := (rounds s)(g := (rounds s g)\<lparr>winningLine := Some (draw_line u)\<rparr>)\<rparr>"
  have "notified_first s (persistRoundResult ?s1 g pflt)"
    by (rule notified_first_step[OF notified_first_refl[OF assms]])
       (simp_all add: persistRoundResult_fields)
  then show ?thesis
    by (simp add: settle_def Let_def notified_first_broadcast notified_first_loop)
qed

lemma is_first_unique:
  assumes "map_of ss k = Some se" "map_of ss k' = Some se'" "userId se = userId se'"
    "is_first ss k" "is_first ss k'"
  shows "k = k'"
  using assms by (auto simp: is_first_def)

lemma demo_two_eval:
  "userSessions demo_two =
     [(''sockA'', \<lparr> userId = 1, username = ''alice'', balance = 1000 \<rparr>),
      (''sockB'', \<lparr> userId = 1, username = ''alice'', balance = 900 \<rparr>)]"
  "finalBets (rounds demo_two 0) =
     [(''sockB'', \<lparr> s_userId = 1, s_bets = [(''line3'', 100)], s_totalAmount = 100 \<rparr>)]"
  "persistedRoundId (rounds demo_two 0) = Some 1"
  "users demo_two 1 = Some (''alice'', 900)"
  "emitted demo_two = emitted demo_frozen @
     [(To ''sockB'', Authenticated 1 1000), (To ''sockB'', BetAccepted 900)]"
  by (simp_all add: demo_two_def demo_frozen_eval authenticate_def submit_final_bets_def
      submit_core_def commit_bets_def Let_def emit_def cur_def demo_users_def line3_payload_def
      submitted_total_def add_balance_def set_session_balance_def)

lemma demo_two_settle:
  "response demo_two (settle demo_two 0 (1/2) 1030000 NoFault (\<lambda>_. NoFault)) =
     [(To ''sockA'', RoundResultTo 1 3 500 1400 1030000), (Broadcast, RoundResult 1 3 1030000)]"
  "users (settle demo_two 0 (1/2) 1030000 NoFault (\<lambda>_. NoFault)) 1 = Some (''alice'', 1400)"
  "userSessions (settle demo_two 0 (1/2) 1030000 NoFault (\<lambda>_. NoFault)) =
     [(''sockA'', \<lparr> userId = 1, username = ''alice'', balance = 1400 \<rparr>),
      (''sockB'', \<lparr> userId = 1, username = ''alice'', balance = 900 \<rparr>)]"
  using demo_two_eval(4)
  by (simp_all add: response_def settle_def Let_def persistRoundResult_def demo_two_eval emit_def
      payout_one_def win_amount_def credit_win_def notify_payee_def first_session_def
      result_round_id_def draw_line_def line_key_def obj_get_def WIN_MULTIPLIER_def add_balance_def)

section \<open>Runs of the interval-driven engine\<close>

lemma upd_cur_fields:
  "currentRound (upd_cur f s) = currentRound s" "allocated (upd_cur f s) = allocated s"
  "emitted (upd_cur f s) = emitted s" "users (upd_cur f s) = users s"
  "transactions (upd_cur f s) = transactions s" "userSessions (upd_cur f s) = userSessions s"
  "game_rounds (upd_cur f s) = game_rounds s" "pending (upd_cur f s) = pending s"
  "rounds (upd_cur f s) = (rounds s)(currentRound s := f (cur s))"
  "cur (upd_cur f s) = f (cur s)" "broadcasts (upd_cur f s) = broadcasts s"
  by (simp_all add: upd_cur_def cur_def broadcasts_def)

lemma same_schedule_place_bet_iv: "same_schedule s (place_bet_iv s sock dat)"
  by (simp add: same_schedule_def place_bet_iv_def Let_def emit_def cur_def broadcasts_def
      split: option.splits)

lemma same_schedule_join_game_iv: "same_schedule s (join_game_iv s sock now)"
  by (simp add: join_game_iv_def same_schedule_emit)

lemma same_schedule_socket_iv:
  "same_schedule s (authenticate s sock tok flt)"
  "same_schedule s (join_game_iv s sock now)"
  "same_schedule s (place_bet_iv s sock dat)"
  "same_schedule s (submit_final_bets_iv s sock p flt)"
  "same_schedule s (disconnect s sock)"
  by (simp_all add: same_schedule_authenticate same_schedule_join_game_iv same_schedule_place_bet_iv
      same_schedule_submit_core same_schedule_disconnect submit_final_bets_iv_def)

lemma inv_iv_same_schedule:
  assumes "inv_iv s" "same_schedule s s'"
  shows "inv_iv s'"
proof -
  have c: "cur s' = rounds s' (currentRound s)" "currentRound s' = currentRound s"
    "allocated s' = allocated s" "freeze_count s' = freeze_count s"
    "result_count s' = result_count s"
    using assms(2)
    by (simp_all add: cur_def same_schedule_def freeze_count_def result_count_def)
  have r: "\<And>g. winningLine (rounds s' g) = winningLine (rounds s g)"
    "\<And>g. freezeTime (rounds s' g) = freezeTime (rounds s g)"
    "\<And>g. resultTime (rounds s' g) = resultTime (rounds s g)"
    "\<And>g. freezeAnnounced (rounds s' g) = freezeAnnounced (rounds s g)"
    using assms(2) by (simp_all add: same_schedule_def)
  show ?thesis
    using assms(1) unfolding inv_iv_def Let_def c r by (simp add: cur_def)
qed

lemma tick_start_iv_props:
  "currentRound (tick_start_iv s now pflt) = currentRound s"
  "allocated (tick_start_iv s now pflt) = allocated s"
  "g \<noteq> currentRound s \<Longrightarrow> rounds (tick_start_iv s now pflt) g = rounds s g"
  "winningLine (rounds (tick_start_iv s now pflt) g) = winningLine (rounds s g)"
  "freezeTime (rounds (tick_start_iv s now pflt) g) = freezeTime (rounds s g)"
  "resultTime (rounds (tick_start_iv s now pflt) g) = resultTime (rounds s g)"
  "startTime (rounds (tick_start_iv s now pflt) g) = startTime (rounds s g)"
  "freezeAnnounced (rounds (tick_start_iv s now pflt) g) = freezeAnnounced (rounds s g)"
  "broadcasts (tick_start_iv s now pflt) = broadcasts s @
     (if \<not> startAnnounced (cur s) \<and> now \<ge> startTime (cur s)
      then [StartRound (startTime (cur s)) now (max 0 (freezeTime (cur s) - now))
              (max 0 (resultTime (cur s) - now))] else [])"
  by (simp_all add: tick_start_iv_def Let_def emit_fields persistRoundStart_fields
      persistRoundStart_rounds upd_cur_fields cur_def broadcasts_def)

lemma tick_freeze_iv_props:
  "currentRound (tick_freeze_iv s now) = currentRound s"
  "allocated (tick_freeze_iv s now) = allocated s"
  "g \<noteq> currentRound s \<Longrightarrow> rounds (tick_freeze_iv s now) g = rounds s g"
  "winningLine (rounds (tick_freeze_iv s now) g) = winningLine (rounds s g)"
  "freezeTime (rounds (tick_freeze_iv s now) g) = freezeTime (rounds s g)"
  "resultTime (rounds (tick_freeze_iv s now) g) = resultTime (rounds s g)"
  "startTime (rounds (tick_freeze_iv s now) g) = startTime (rounds s g)"
  "freezeAnnounced (cur (tick_freeze_iv s now)) = (freezeAnnounced (cur s) \<or> now \<ge> freezeTime (cur s))"
  "broadcasts (tick_freeze_iv s now) = broadcasts s @
     (if \<not> freezeAnnounced (cur s) \<and> now \<ge> freezeTime (cur s)
      then [FreezeBets (startTime (cur s)) now] else [])"
  by (simp_all add: tick_freeze_iv_def emit_fields upd_cur_fields cur_def broadcasts_def)

lemma tick_result_iv_props:
  "currentRound (tick_result_iv s now u) = currentRound s"
  "allocated (tick_result_iv s now u) = allocated s"
  "g \<noteq> currentRound s \<Longrightarrow> rounds (tick_result_iv s now u) g = rounds s g"
  "freezeTime (rounds (tick_result_iv s now u) g) = freezeTime (rounds s g)"
  "resultTime (rounds (tick_result_iv s now u) g) = resultTime (rounds s g)"
  "startTime (rounds (tick_result_iv s now u) g) = startTime (rounds s g)"
  "freezeAnnounced (rounds (tick_result_iv s now u) g) = freezeAnnounced (rounds s g)"
  "broadcasts (tick_result_iv s now u) = broadcasts s"
  "winningLine (cur (tick_result_iv s now u)) =
     (if no_winner (cur s) \<and> now \<ge> resultTime (cur s) then Some (draw_line u)
      else winningLine (cur s))"
  by (simp_all add: tick_result_iv_def upd_cur_fields cur_def broadcasts_def)

lemma no_winner_iff: "no_winner r = (winningLine r = None \<or> winningLine r = Some 0)"
  by (simp add: no_winner_def split: option.splits)

lemma inv_iv_tick:
  assumes "inv_iv s" "0 \<le> u" "u < 1"
  shows "inv_iv (tick_iv s now u pflt)"
proof -
  let ?s1 = "tick_start_iv s now pflt"
  let ?s2 = "tick_freeze_iv ?s1 now"
  let ?s3 = "tick_result_iv ?s2 now u"
  let ?c = "currentRound s"
  have c: "currentRound ?s3 = ?c" "allocated ?s3 = allocated s"
    by (simp_all add: tick_result_iv_props tick_freeze_iv_props tick_start_iv_props)
  have old: "\<And>g. g \<noteq> ?c \<Longrightarrow> rounds ?s3 g = rounds s g"
    by (simp add: tick_result_iv_props tick_freeze_iv_props tick_start_iv_props)
  have t: "freezeTime (rounds ?s3 ?c) = freezeTime (rounds s ?c)"
    "resultTime (rounds ?s3 ?c) = resultTime (rounds s ?c)"
    by (simp_all add: tick_result_iv_props tick_freeze_iv_props tick_start_iv_props)
  have c1: "cur ?s1 = rounds ?s1 ?c" "cur ?s2 = rounds ?s2 ?c" "cur ?s3 = rounds ?s3 ?c"
    by (simp_all add: cur_def tick_result_iv_props tick_freeze_iv_props tick_start_iv_props)
  have "freezeAnnounced (cur ?s2) = (freezeAnnounced (cur ?s1) \<or> now \<ge> freezeTime (cur ?s1))"
    by (rule tick_freeze_iv_props(8))
  then have fa2: "freezeAnnounced (cur ?s2) = (freezeAnnounced (cur s) \<or> now \<ge> freezeTime (cur s))"
    by (simp add: cur_def tick_start_iv_props)
  have fa3: "freezeAnnounced (cur ?s3) = freezeAnnounced (cur ?s2)"
    by (simp add: c1 tick_result_iv_props)
  have w2: "winningLine (cur ?s2) = winningLine (cur s)"
    by (simp add: c1 tick_freeze_iv_props tick_start_iv_props cur_def)
  have "winningLine (cur ?s3) =
     (if no_winner (cur ?s2) \<and> now \<ge> resultTime (cur ?s2) then Some (draw_line u)
      else winningLine (cur ?s2))"
    by (rule tick_result_iv_props(9))
  moreover have "resultTime (cur ?s2) = resultTime (cur s)"
    by (simp add: cur_def tick_freeze_iv_props tick_start_iv_props)
  ultimately have w3: "winningLine (cur ?s3) =
     (if no_winner (cur ?s2) \<and> now \<ge> resultTime (cur s) then Some (draw_line u)
      else winningLine (cur s))"
    using w2 by simp
  have b: "freeze_count ?s3 = freeze_count s +
      (if \<not> freezeAnnounced (cur s) \<and> now \<ge> freezeTime (cur s) then 1 else 0)"
    "result_count ?s3 = result_count s"
    by (simp_all add: freeze_count_def result_count_def tick_result_iv_props tick_freeze_iv_props
        tick_start_iv_props c1(1) cur_def is_freeze_def is_result_def)
  from assms(1) have i: "allocated s = Suc ?c"
    "\<forall>g<?c. \<exists>w. winningLine (rounds s g) = Some w \<and> 1 \<le> w \<and> w \<le> 5"
    "\<forall>w. winningLine (cur s) = Some w \<longrightarrow> 1 \<le> w \<and> w \<le> 5 \<and> freezeAnnounced (cur s)"
    "freezeTime (cur s) \<le> resultTime (cur s)"
    "freeze_count s = ?c + (if freezeAnnounced (cur s) then 1 else 0)" "result_count s = 0"
    by (simp_all add: inv_iv_def Let_def)
  have w': "\<forall>w. winningLine (cur ?s3) = Some w \<longrightarrow> 1 \<le> w \<and> w \<le> 5 \<and> freezeAnnounced (cur ?s3)"
    using i(3,4) draw_line_range[OF assms(2,3)]
    by (auto simp: w3 fa3 fa2 split: if_splits)
  have old': "\<forall>g<?c. \<exists>w. winningLine (rounds ?s3 g) = Some w \<and> 1 \<le> w \<and> w \<le> 5"
    using i(2) old by simp
  have fc: "freeze_count ?s3 = ?c + (if freezeAnnounced (cur ?s3) then 1 else 0)"
    using i(5) by (auto simp: b fa3 fa2)
  show ?thesis
    unfolding tick_iv_def inv_iv_def Let_def c
    using i(1,4,6) w' old' fc by (simp add: b c t cur_def)
qed

lemma finish_result_iv_props:
  assumes "winningLine (cur s) = Some w"
  shows "currentRound (finish_result_iv s now now2 pflt flts) = allocated s"
    and "allocated (finish_result_iv s now now2 pflt flts) = Suc (allocated s)"
    and "g \<noteq> allocated s \<Longrightarrow> g \<noteq> currentRound s \<Longrightarrow>
           rounds (finish_result_iv s now now2 pflt flts) g = rounds s g"
    and "g \<noteq> allocated s \<Longrightarrow>
           winningLine (rounds (finish_result_iv s now now2 pflt flts) g) = winningLine (rounds s g)"
    and "rounds (finish_result_iv s now now2 pflt flts) (allocated s) = createRound_iv now2"
    and "broadcasts (finish_result_iv s now now2 pflt flts) = broadcasts s"
proof -
  let ?g = "currentRound s"
  let ?s2 = "persistRoundResult s ?g pflt"
  let ?s3 = "foldl (payout_one ?g w now flts) ?s2 (finalBets (rounds ?s2 ?g))"
  have e: "finish_result_iv s now now2 pflt flts =
      ?s3\<lparr> rounds := (rounds ?s3)(allocated ?s3 := createRound_iv now2),
            allocated := Suc (allocated ?s3), currentRound := allocated ?s3 \<rparr>"
    using assms by (simp add: finish_result_iv_def Let_def)
  have a: "allocated ?s3 = allocated s" "rounds ?s3 = rounds ?s2"
    by (simp_all add: payout_loop_fields persistRoundResult_fields)
  have b: "broadcasts ?s3 = broadcasts s"
    by (simp add: payout_loop_fields) (simp add: broadcasts_def persistRoundResult_fields)
  show "currentRound (finish_result_iv s now now2 pflt flts) = allocated s"
    and "allocated (finish_result_iv s now now2 pflt flts) = Suc (allocated s)"
    and "rounds (finish_result_iv s now now2 pflt flts) (allocated s) = createRound_iv now2"
    by (simp_all add: e payout_loop_fields persistRoundResult_fields)
  show "g \<noteq> allocated s \<Longrightarrow> g \<noteq> currentRound s \<Longrightarrow>
           rounds (finish_result_iv s now now2 pflt flts) g = rounds s g"
    by (simp add: e payout_loop_fields persistRoundResult_fields persistRoundResult_rounds)
  show "g \<noteq> allocated s \<Longrightarrow>
           winningLine (rounds (finish_result_iv s now now2 pflt flts) g) = winningLine (rounds s g)"
    by (simp add: e payout_loop_fields persistRoundResult_fields persistRoundResult_rounds)
  show "broadcasts (finish_result_iv s now now2 pflt flts) = broadcasts s"
    using b by (simp add: e broadcasts_def)
qed

lemma inv_iv_finish:
  assumes "inv_iv s"
  shows "inv_iv (finish_result_iv s now now2 pflt flts)"
proof (cases "winningLine (cur s)")
  case None
  then show ?thesis using assms by (simp add: finish_result_iv_def)
next
  case (Some w)
  let ?s' = "finish_result_iv s now now2 pflt flts"
  let ?c = "currentRound s"
  note p = finish_result_iv_props[OF Some, where now=now and ?now2.0=now2 and pflt=pflt and flts=flts]
  from assms have i: "allocated s = Suc ?c"
    "\<forall>g<?c. \<exists>w. winningLine (rounds s g) = Some w \<and> 1 \<le> w \<and> w \<le> 5"
    "1 \<le> w \<and> w \<le> 5 \<and> freezeAnnounced (cur s)"
    "freeze_count s = ?c + (if freezeAnnounced (cur s) then 1 else 0)" "result_count s = 0"
    using Some by (simp_all add: inv_iv_def Let_def)
  have n: "cur ?s' = createRound_iv now2"
    by (simp add: cur_def p(1) p(5))
  have old: "\<forall>g<Suc ?c. \<exists>w. winningLine (rounds ?s' g) = Some w \<and> 1 \<le> w \<and> w \<le> 5"
  proof (intro allI impI)
    fix g assume "g < Suc ?c"
    then consider "g < ?c" | "g = ?c" by linarith
    then show "\<exists>w. winningLine (rounds ?s' g) = Some w \<and> 1 \<le> w \<and> w \<le> 5"
    proof cases
      case 1 then show ?thesis using i(1,2) by (simp add: p(4))
    next
      case 2 then show ?thesis using i(1,3) Some by (simp add: p(4) cur_def)
    qed
  qed
  have b: "freeze_count ?s' = freeze_count s" "result_count ?s' = result_count s"
    by (simp_all add: freeze_count_def result_count_def p(6))
  show ?thesis
    unfolding inv_iv_def Let_def p(1) p(2) n i(1)
    using old i(3,4,5)
    by (simp add: b createRound_iv_def FREEZE_OFFSET_MS_iv_def RESULT_OFFSET_MS_iv_def)
qed

lemma inv_iv_step: "inv_iv s \<Longrightarrow> wf_event_iv e \<Longrightarrow> inv_iv (step_iv s e)"
  by (cases e) (simp_all add: inv_iv_tick inv_iv_finish
      inv_iv_same_schedule[OF _ same_schedule_socket_iv(1)]
      inv_iv_same_schedule[OF _ same_schedule_socket_iv(2)]
      inv_iv_same_schedule[OF _ same_schedule_socket_iv(3)]
      inv_iv_same_schedule[OF _ same_schedule_socket_iv(4)]
      inv_iv_same_schedule[OF _ same_schedule_socket_iv(5)])

lemma inv_iv_init: "inv_iv (init_iv us txs pbs grs t0)"
  by (simp add: inv_iv_def init_iv_def cur_def createRound_iv_def freeze_count_def
      result_count_def broadcasts_def FREEZE_OFFSET_MS_iv_def RESULT_OFFSET_MS_iv_def)

lemma reachable_iv_inv: "reachable_iv s \<Longrightarrow> inv_iv s"
  by (induction rule: reachable_iv.induct) (simp_all add: inv_iv_init inv_iv_step)

lemma tick_iv_props:
  "currentRound (tick_iv s now u pflt) = currentRound s"
  "g \<noteq> currentRound s \<Longrightarrow> rounds (tick_iv s now u pflt) g = rounds s g"
  "winningLine (cur (tick_iv s now u pflt)) =
     (if no_winner (cur s) \<and> now \<ge> resultTime (cur s) then Some (draw_line u)
      else winningLine (cur s))"
  "freezeAnnounced (cur (tick_iv s now u pflt)) =
     (freezeAnnounced (cur s) \<or> now \<ge> freezeTime (cur s))"
  "broadcasts (tick_iv s now u pflt) = broadcasts s @
     (if \<not> startAnnounced (cur s) \<and> now \<ge> startTime (cur s)
      then [StartRound (startTime (cur s)) now (max 0 (freezeTime (cur s) - now))
              (max 0 (resultTime (cur s) - now))] else []) @
     (if \<not> freezeAnnounced (cur s) \<and> now \<ge> freezeTime (cur s)
      then [FreezeBets (startTime (cur s)) now] else [])"
proof -
  let ?s1 = "tick_start_iv s now pflt"
  let ?s2 = "tick_freeze_iv ?s1 now"
  let ?s3 = "tick_result_iv ?s2 now u"
  have r1: "freezeAnnounced (cur ?s1) = freezeAnnounced (cur s)" "freezeTime (cur ?s1) = freezeTime (cur s)"
    "startTime (cur ?s1) = startTime (cur s)" "resultTime (cur ?s1) = resultTime (cur s)"
    "winningLine (cur ?s1) = winningLine (cur s)"
    by (simp_all add: cur_def tick_start_iv_props)
  have r2: "resultTime (cur ?s2) = resultTime (cur s)" "winningLine (cur ?s2) = winningLine (cur s)"
    by (simp_all add: cur_def tick_freeze_iv_props tick_start_iv_props)
  show "currentRound (tick_iv s now u pflt) = currentRound s"
    by (simp add: tick_iv_def tick_result_iv_props tick_freeze_iv_props tick_start_iv_props)
  show "g \<noteq> currentRound s \<Longrightarrow> rounds (tick_iv s now u pflt) g = rounds s g"
    by (simp add: tick_iv_def tick_result_iv_props tick_freeze_iv_props tick_start_iv_props)
  have "winningLine (cur ?s3) =
     (if no_winner (cur ?s2) \<and> now \<ge> resultTime (cur ?s2) then Some (draw_line u)
      else winningLine (cur ?s2))"
    by (rule tick_result_iv_props(9))
  then show "winningLine (cur (tick_iv s now u pflt)) =
     (if no_winner (cur s) \<and> now \<ge> resultTime (cur s) then Some (draw_line u)
      else winningLine (cur s))"
    by (simp add: tick_iv_def r2 no_winner_iff)
  have "freezeAnnounced (cur ?s2) = (freezeAnnounced (cur ?s1) \<or> now \<ge> freezeTime (cur ?s1))"
    by (rule tick_freeze_iv_props(8))
  moreover have "freezeAnnounced (cur ?s3) = freezeAnnounced (cur ?s2)"
    by (simp add: cur_def tick_result_iv_props)
  ultimately show "freezeAnnounced (cur (tick_iv s now u pflt)) =
     (freezeAnnounced (cur s) \<or> now \<ge> freezeTime (cur s))"
    by (simp add: tick_iv_def r1)
  have "broadcasts ?s2 = broadcasts ?s1 @
     (if \<not> freezeAnnounced (cur ?s1) \<and> now \<ge> freezeTime (cur ?s1)
      then [FreezeBets (startTime (cur ?s1)) now] else [])"
    by (rule tick_freeze_iv_props(9))
  then show "broadcasts (tick_iv s now u pflt) = broadcasts s @
     (if \<not> startAnnounced (cur s) \<and> now \<ge> startTime (cur s)
      then [StartRound (startTime (cur s)) now (max 0 (freezeTime (cur s) - now))
              (max 0 (resultTime (cur s) - now))] else []) @
     (if \<not> freezeAnnounced (cur s) \<and> now \<ge> freezeTime (cur s)
      then [FreezeBets (startTime (cur s)) now] else [])"
    by (simp add: tick_iv_def tick_result_iv_props(8) r1 tick_start_iv_props(9))
qed

lemma finish_result_iv_idle:
  "winningLine (cur s) = None \<Longrightarrow> finish_result_iv s now now2 pflt flts = s"
  by (simp add: finish_result_iv_def)

lemma step_iv_frame:
  assumes "inv_iv s" "g < currentRound s"
  shows "rounds (step_iv s e) g = rounds s g"
proof (cases e)
  case (Tick now u pflt)
  then show ?thesis using assms(2) by (simp add: tick_iv_props)
next
  case (FinishResult now now2 pflt flts)
  show ?thesis
  proof (cases "winningLine (cur s)")
    case None
    then show ?thesis using FinishResult by (simp add: finish_result_iv_idle)
  next
    case (Some w)
    have "allocated s = Suc (currentRound s)" using assms(1) by (simp add: inv_iv_def Let_def)
    then show ?thesis
      using finish_result_iv_props(3)[OF Some, of g] assms(2) FinishResult by simp
  qed
next
  case (OnAuthenticate_iv sock tok flt)
  then show ?thesis using socket_frame(1)[OF same_schedule_socket_iv(1)] assms(2) by simp
next
  case (OnJoinGame_iv sock now)
  then show ?thesis using socket_frame(1)[OF same_schedule_socket_iv(2)] assms(2) by simp
next
  case (OnPlaceBet_iv sock dat)
  then show ?thesis using socket_frame(1)[OF same_schedule_socket_iv(3)] assms(2) by simp
next
  case (OnSubmitFinalBets_iv sock p flt)
  then show ?thesis using socket_frame(1)[OF same_schedule_socket_iv(4)] assms(2) by simp
next
  case (OnDisconnect_iv sock)
  then show ?thesis using socket_frame(1)[OF same_schedule_socket_iv(5)] assms(2) by simp
qed

lemma step_iv_keep:
  assumes "inv_iv s" "winningLine (cur s) = Some w"
  shows "winningLine (rounds (step_iv s e) (currentRound s)) = Some w"
proof (cases e)
  case (Tick now u pflt)
  have "1 \<le> w" using assms by (simp add: inv_iv_def Let_def)
  then have "\<not> no_winner (cur s)" using assms(2) by (simp add: no_winner_iff)
  then show ?thesis
    using tick_iv_props(3)[of s now u pflt] assms(2) Tick by (simp add: cur_def tick_iv_props(1))
next
  case (FinishResult now now2 pflt flts)
  have "allocated s = Suc (currentRound s)" using assms(1) by (simp add: inv_iv_def Let_def)
  then show ?thesis
    using finish_result_iv_props(4)[OF assms(2), of "currentRound s"] assms(2) FinishResult
    by (simp add: cur_def)
next
  case (OnAuthenticate_iv sock tok flt)
  then show ?thesis using socket_frame(2)[OF same_schedule_socket_iv(1)] assms(2) by (simp add: cur_def)
next
  case (OnJoinGame_iv sock now)
  then show ?thesis using socket_frame(2)[OF same_schedule_socket_iv(2)] assms(2) by (simp add: cur_def)
next
  case (OnPlaceBet_iv sock dat)
  then show ?thesis using socket_frame(2)[OF same_schedule_socket_iv(3)] assms(2) by (simp add: cur_def)
next
  case (OnSubmitFinalBets_iv sock p flt)
  then show ?thesis using socket_frame(2)[OF same_schedule_socket_iv(4)] assms(2) by (simp add: cur_def)
next
  case (OnDisconnect_iv sock)
  then show ?thesis using socket_frame(2)[OF same_schedule_socket_iv(5)] assms(2) by (simp add: cur_def)
qed

lemma step_iv_draw:
  assumes "inv_iv s" "winningLine (cur s) = None"
    "winningLine (rounds (step_iv s e) (currentRound s)) \<noteq> None"
  shows "\<exists>now u pflt. e = Tick now u pflt \<and> resultTime (cur s) \<le> now \<and>
     winningLine (rounds (step_iv s e) (currentRound s)) = Some (draw_line u) \<and>
     freezeAnnounced (rounds (step_iv s e) (currentRound s))"
proof (cases e)
  case (Tick now u pflt)
  have c: "cur (tick_iv s now u pflt) = rounds (tick_iv s now u pflt) (currentRound s)"
    by (simp add: cur_def tick_iv_props(1))
  have ft: "freezeTime (cur s) \<le> resultTime (cur s)" using assms(1) by (simp add: inv_iv_def Let_def)
  have d: "no_winner (cur s) \<and> now \<ge> resultTime (cur s)"
    using assms(2,3) tick_iv_props(3)[of s now u pflt] Tick by (auto simp: c split: if_splits)
  then have "winningLine (rounds (step_iv s e) (currentRound s)) = Some (draw_line u)"
    "freezeAnnounced (rounds (step_iv s e) (currentRound s))"
    using tick_iv_props(3,4)[of s now u pflt] Tick ft by (simp_all add: c)
  then show ?thesis using Tick d by simp
next
  case (FinishResult now now2 pflt flts)
  then show ?thesis using assms(2,3) by (simp add: finish_result_iv_idle cur_def)
next
  case (OnAuthenticate_iv sock tok flt)
  then show ?thesis using socket_frame(2)[OF same_schedule_socket_iv(1)] assms(2,3) by (simp add: cur_def)
next
  case (OnJoinGame_iv sock now)
  then show ?thesis using socket_frame(2)[OF same_schedule_socket_iv(2)] assms(2,3) by (simp add: cur_def)
next
  case (OnPlaceBet_iv sock dat)
  then show ?thesis using socket_frame(2)[OF same_schedule_socket_iv(3)] assms(2,3) by (simp add: cur_def)
next
  case (OnSubmitFinalBets_iv sock p flt)
  then show ?thesis using socket_frame(2)[OF same_schedule_socket_iv(4)] assms(2,3) by (simp add: cur_def)
next
  case (OnDisconnect_iv sock)
  then show ?thesis using socket_frame(2)[OF same_schedule_socket_iv(5)] assms(2,3) by (simp add: cur_def)
qed

lemma step_iv_broadcasts:
  "\<forall>m\<in>set (new_broadcasts s (step_iv s e)).
      about_round (cur s) (rounds (step_iv s e) (currentRound s)) m"
proof (cases e)
  case (Tick now u pflt)
  then show ?thesis by (auto simp: new_broadcasts_def tick_iv_props(5) about_round_def)
next
  case (FinishResult now now2 pflt flts)
  show ?thesis
  proof (cases "winningLine (cur s)")
    case None
    then show ?thesis using FinishResult by (simp add: finish_result_iv_idle new_broadcasts_def)
  next
    case (Some w)
    then show ?thesis using FinishResult
      by (simp add: finish_result_iv_props(6)[OF Some] new_broadcasts_def)
  qed
next
  case (OnAuthenticate_iv sock tok flt)
  then show ?thesis using socket_frame(3)[OF same_schedule_socket_iv(1)] by simp
next
  case (OnJoinGame_iv sock now)
  then show ?thesis using socket_frame(3)[OF same_schedule_socket_iv(2)] by simp
next
  case (OnPlaceBet_iv sock dat)
  then show ?thesis using socket_frame(3)[OF same_schedule_socket_iv(3)] by simp
next
  case (OnSubmitFinalBets_iv sock p flt)
  then show ?thesis using socket_frame(3)[OF same_schedule_socket_iv(4)] by simp
next
  case (OnDisconnect_iv sock)
  then show ?thesis using socket_frame(3)[OF same_schedule_socket_iv(5)] by simp
qed

subsection \<open>The example run of the interval-driven engine\<close>

lemma demo_iv0_eval:
  "cur demo_iv0 = createRound_iv 1000000" "currentRound demo_iv0 = 0" "broadcasts demo_iv0 = []"
  by (simp_all add: demo_iv0_def init_iv_def cur_def broadcasts_def)

lemma demo_iv_eval: "demo_iv =
   \<lparr> rounds = (\<lambda>_. createRound_iv 1000000)
       (0 := \<lparr> startTime = 1000000, freezeTime = 1025000, resultTime = 1027000,
         endTime = 1030000, persistedRoundId = Some (Suc 0), winningLine = Some (Suc 0), bets = [],
         finalBets = [], timers = [], startAnnounced = True, freezeAnnounced = True \<rparr>),
     currentRound = 0, allocated = 1, timer_seq = 0, pending = [], userSessions = [],
     users = demo_users, transactions = [], player_bets = [],
     game_rounds = [\<lparr> gr_start = 1000000, gr_end = None, gr_winning_line = None \<rparr>],
     emitted = [(Broadcast, StartRound 1000000 1000000 25000 27000),
                (Broadcast, FreezeBets 1000000 1027000)] \<rparr>"
  by (simp add: demo_iv_def demo_iv0_def init_iv_def tick_iv_def tick_start_iv_def tick_freeze_iv_def
      tick_result_iv_def upd_cur_def persistRoundStart_def emit_def cur_def Let_def no_winner_def
      draw_line_def createRound_iv_def FREEZE_OFFSET_MS_iv_def RESULT_OFFSET_MS_iv_def
      ROUND_DURATION_MS_iv_def)

lemma reachable_demo_iv0: "reachable_iv demo_iv0"
  unfolding demo_iv0_def by (rule reach_init_iv) simp

lemma reachable_demo_iv: "reachable_iv demo_iv"
proof -
  have "reachable_iv (tick_iv demo_iv0 1000000 0 NoFault)"
    using reach_step_iv[OF reachable_demo_iv0, of "Tick 1000000 0 NoFault"] by simp
  from reach_step_iv[OF this, of "Tick 1027000 0 NoFault"] show ?thesis
    by (simp add: demo_iv_def)
qed

lemma successor_start_on_grid:
  assumes "reachable s" "g < currentRound s"
  shows "startTime (rounds s (Suc g)) = startTime (rounds s g) + ROUND_DURATION_MS"
  using reachable_inv[OF assms(1)] assms(2) by (simp add: inv_def Let_def)

lemma finish_result_iv_start:
  assumes "winningLine (cur s) = Some w"
  shows "startTime (cur (finish_result_iv s now now2 pflt flts)) = now2"
  using finish_result_iv_props(1,5)[OF assms, of now now2 pflt flts]
  by (simp add: cur_def createRound_iv_def)

section \<open>The monolithic server\<close>

lemma emit_srv_fields:
  "currentRound_srv (emit_srv t m s) = currentRound_srv s"
  "userSessions_srv (emit_srv t m s) = userSessions_srv s"
  "users_srv (emit_srv t m s) = users_srv s"
  "transactions_srv (emit_srv t m s) = transactions_srv s"
  "game_rounds_srv (emit_srv t m s) = game_rounds_srv s"
  "emitted_srv (emit_srv t m s) = emitted_srv s @ [(t, m)]"
  by (simp_all add: emit_srv_def)

lemma response_emit_srv:
  "emitted_srv s' = emitted_srv s \<Longrightarrow> response_srv s (emit_srv t m s') = [(t, m)]"
  by (simp add: response_srv_def emit_srv_def)

lemma answered_emit_srv: "answered_srv m sock s (emit_srv (To sock) m s)"
  by (simp add: answered_srv_def response_emit_srv emit_srv_fields)

subsection \<open>Its \<^verbatim>\<open>update_pending_bet\<close>\<close>

lemma update_pending_bet_closed:
  assumes "map_of (userSessions_srv s) sock = Some se" "userId se \<noteq> 0"
    "\<not> isBettingOpen (currentRound_srv s)"
  shows "update_pending_bet s sock dat flt = emit_srv (To sock) (BetError_srv ''Betting is closed'') s"
  using assms by (simp add: update_pending_bet_def)

subsection \<open>Its \<^verbatim>\<open>submit_final_bets\<close>\<close>

lemma submit_srv_accept:
  assumes "map_of (userSessions_srv s) sock = Some se" "userId se \<noteq> 0"
    "\<not> isBettingOpen (currentRound_srv s)" "sum_values (pendingBets se) \<noteq> 0"
    "users_srv s (userId se) = Some (n, b)" "\<not> b < sum_values (pendingBets se)"
  shows "submit_final_bets_srv s sock NoFault =
     emit_srv (To sock)
       (FinalBetsSubmitted (pendingBets se) (balance se - sum_values (pendingBets se)))
       (s\<lparr> users_srv := add_balance (userId se) (- sum_values (pendingBets se)) (users_srv s),
           transactions_srv := transactions_srv s @ bet_entries_srv (userId se) (pendingBets se),
           currentRound_srv := (currentRound_srv s)\<lparr>finalBets_srv :=
              AList.update (userId se) (pendingBets se, sum_values (pendingBets se))
                (finalBets_srv (currentRound_srv s))\<rparr>,
           userSessions_srv := AList.update sock
              (se\<lparr>balance := balance se - sum_values (pendingBets se), pendingBets := []\<rparr>)
              (userSessions_srv s) \<rparr>)"
  using assms by (simp add: submit_final_bets_srv_def Let_def)

lemma submit_srv_open:
  assumes "map_of (userSessions_srv s) sock = Some se" "userId se \<noteq> 0"
    "isBettingOpen (currentRound_srv s)"
  shows "submit_final_bets_srv s sock flt = emit_srv (To sock) (BetError_srv ''Betting still open'') s"
  using assms by (simp add: submit_final_bets_srv_def)

lemma submit_srv_nothing:
  assumes "map_of (userSessions_srv s) sock = Some se" "userId se \<noteq> 0"
    "\<not> isBettingOpen (currentRound_srv s)" "sum_values (pendingBets se) = 0"
  shows "submit_final_bets_srv s sock flt = emit_srv (To sock) NoBetsToSubmit s"
  using assms by (simp add: submit_final_bets_srv_def Let_def)

lemma submit_srv_insufficient:
  assumes "map_of (userSessions_srv s) sock = Some se" "userId se \<noteq> 0"
    "\<not> isBettingOpen (currentRound_srv s)" "sum_values (pendingBets se) \<noteq> 0"
    "users_srv s (userId se) = Some (n, b)" "b < sum_values (pendingBets se)"
  shows "submit_final_bets_srv s sock NoFault =
     emit_srv (To sock) (BetError_srv ''Insufficient balance for final bets'') s"
  using assms by (simp add: submit_final_bets_srv_def Let_def)

lemma submit_srv_reject:
  assumes "\<not> submit_ok_srv s sock flt"
  shows "\<exists>m. (m = NoBetsToSubmit \<or> (\<exists>x. m = BetError_srv x)) \<and>
     submit_final_bets_srv s sock flt = emit_srv (To sock) m s"
proof (cases "map_of (userSessions_srv s) sock")
  case None
  then have "submit_final_bets_srv s sock flt = emit_srv (To sock) (BetError_srv ''Not authenticated'') s"
    by (simp add: submit_final_bets_srv_def)
  then show ?thesis by blast
next
  case (Some se)
  show ?thesis
  proof (cases "userId se = 0")
    case True
    then have "submit_final_bets_srv s sock flt = emit_srv (To sock) (BetError_srv ''Not authenticated'') s"
      using Some by (simp add: submit_final_bets_srv_def)
    then show ?thesis by blast
  next
    case uid: False
    show ?thesis
    proof (cases "isBettingOpen (currentRound_srv s)")
      case True
      then show ?thesis using submit_srv_open[OF Some uid True, of flt] by blast
    next
      case closed: False
      show ?thesis
      proof (cases "sum_values (pendingBets se) = 0")
        case True
        then show ?thesis using submit_srv_nothing[OF Some uid closed True, of flt] by blast
      next
        case tot: False
        show ?thesis
        proof (cases "flt = NoFault")
          case False
          then have "submit_final_bets_srv s sock flt =
              emit_srv (To sock) (BetError_srv ''Failed to submit final bets'') s"
            using Some uid closed tot by (simp add: submit_final_bets_srv_def Let_def)
          then show ?thesis by blast
        next
          case nf: True
          show ?thesis
          proof (cases "users_srv s (userId se)")
            case None
            then have "submit_final_bets_srv s sock flt =
                emit_srv (To sock) (BetError_srv ''Failed to submit final bets'') s"
              using Some uid closed tot nf by (simp add: submit_final_bets_srv_def Let_def)
            then show ?thesis by blast
          next
            case (Some nb)
            obtain n b where nb: "nb = (n, b)" by (cases nb) auto
            have u: "users_srv s (userId se) = Some (n, b)" using Some nb by simp
            have "b < sum_values (pendingBets se)"
              using assms \<open>map_of (userSessions_srv s) sock = Some se\<close> uid closed tot nf u
              by (simp add: submit_ok_srv_def)
            then show ?thesis
              using submit_srv_insufficient[OF \<open>map_of (userSessions_srv s) sock = Some se\<close> uid closed tot u]
                nf by blast
          qed
        qed
      qed
    qed
  qed
qed

lemma accepted_srv_iff:
  "accepted_srv s (submit_final_bets_srv s sock flt) = submit_ok_srv s sock flt"
proof (cases "submit_ok_srv s sock flt")
  case False
  from submit_srv_reject[OF this] obtain m where
    m: "m = NoBetsToSubmit \<or> (\<exists>x. m = BetError_srv x)"
       "submit_final_bets_srv s sock flt = emit_srv (To sock) m s" by blast
  have "\<not> accepted_srv s (emit_srv (To sock) m s)"
    using m(1) by (auto simp: accepted_srv_def response_emit_srv)
  then show ?thesis using False m(2) by simp
next
  case True
  then obtain se n b where h: "map_of (userSessions_srv s) sock = Some se" "userId se \<noteq> 0"
    "\<not> isBettingOpen (currentRound_srv s)" "sum_values (pendingBets se) \<noteq> 0"
    "users_srv s (userId se) = Some (n, b)" "\<not> b < sum_values (pendingBets se)"
    and f: "flt = NoFault"
    by (auto simp: submit_ok_srv_def split: option.splits)
  show ?thesis
    using True unfolding f submit_srv_accept[OF h]
    by (simp add: accepted_srv_def response_emit_srv)
qed

lemma submit_srv_effect:
  "(accepted_srv s (submit_final_bets_srv s sock flt) \<longrightarrow>
      (\<exists>se n b. map_of (userSessions_srv s) sock = Some se \<and>
         users_srv s (userId se) = Some (n, b) \<and> sum_values (pendingBets se) \<noteq> 0 \<and>
         sum_values (pendingBets se) \<le> b \<and>
         users_srv (submit_final_bets_srv s sock flt) =
           (users_srv s)(userId se := Some (n, b - sum_values (pendingBets se))) \<and>
         transactions_srv (submit_final_bets_srv s sock flt) =
           transactions_srv s @ bet_entries_srv (userId se) (pendingBets se) \<and>
         finalized_srv (submit_final_bets_srv s sock flt) (userId se) =
           Some (pendingBets se, sum_values (pendingBets se)) \<and>
         map_of (userSessions_srv (submit_final_bets_srv s sock flt)) sock =
           Some (se\<lparr>balance := balance se - sum_values (pendingBets se), pendingBets := []\<rparr>) \<and>
         isBettingOpen (currentRound_srv (submit_final_bets_srv s sock flt)) =
           isBettingOpen (currentRound_srv s))) \<and>
   (\<not> accepted_srv s (submit_final_bets_srv s sock flt) \<longrightarrow>
      users_srv (submit_final_bets_srv s sock flt) = users_srv s \<and>
      transactions_srv (submit_final_bets_srv s sock flt) = transactions_srv s \<and>
      currentRound_srv (submit_final_bets_srv s sock flt) = currentRound_srv s \<and>
      userSessions_srv (submit_final_bets_srv s sock flt) = userSessions_srv s)"
proof (cases "submit_ok_srv s sock flt")
  case False
  from submit_srv_reject[OF this] obtain m where
    m: "submit_final_bets_srv s sock flt = emit_srv (To sock) m s" by blast
  have "\<not> accepted_srv s (submit_final_bets_srv s sock flt)"
    using False by (simp add: accepted_srv_iff)
  then show ?thesis by (simp add: m emit_srv_fields)
next
  case True
  then obtain se n b where h: "map_of (userSessions_srv s) sock = Some se" "userId se \<noteq> 0"
    "\<not> isBettingOpen (currentRound_srv s)" "sum_values (pendingBets se) \<noteq> 0"
    "users_srv s (userId se) = Some (n, b)" "\<not> b < sum_values (pendingBets se)"
    and f: "flt = NoFault"
    by (auto simp: submit_ok_srv_def split: option.splits)
  have a: "accepted_srv s (submit_final_bets_srv s sock flt)"
    using True by (simp add: accepted_srv_iff)
  have u: "users_srv (submit_final_bets_srv s sock flt) =
           (users_srv s)(userId se := Some (n, b - sum_values (pendingBets se)))"
    unfolding f submit_srv_accept[OF h] using h(5) by (simp add: emit_srv_fields add_balance_def)
  have t: "transactions_srv (submit_final_bets_srv s sock flt) =
           transactions_srv s @ bet_entries_srv (userId se) (pendingBets se)"
    unfolding f submit_srv_accept[OF h] by (simp add: emit_srv_fields)
  have g: "finalized_srv (submit_final_bets_srv s sock flt) (userId se) =
           Some (pendingBets se, sum_values (pendingBets se))"
    unfolding f submit_srv_accept[OF h] by (simp add: emit_srv_fields finalized_srv_def update_conv')
  have p: "map_of (userSessions_srv (submit_final_bets_srv s sock flt)) sock =
           Some (se\<lparr>balance := balance se - sum_values (pendingBets se), pendingBets := []\<rparr>)"
    unfolding f submit_srv_accept[OF h] by (simp add: emit_srv_fields update_conv')
  have o: "isBettingOpen (currentRound_srv (submit_final_bets_srv s sock flt)) =
           isBettingOpen (currentRound_srv s)"
    unfolding f submit_srv_accept[OF h] by (simp add: emit_srv_fields)
  show ?thesis using a h(1,4,5,6) u t g p o by auto
qed

subsection \<open>Its payouts\<close>

lemma payout_one_srv_round:
  "currentRound_srv (payout_one_srv flts s e) = currentRound_srv s"
  by (simp add: payout_one_srv_def Let_def emit_srv_fields split: option.splits prod.splits)

lemma payout_one_srv_ledger:
  assumes "flts (fst e) = NoFault"
  shows "transactions_srv (payout_one_srv flts s e) =
           transactions_srv s @ spec_win_rows_srv (winningLine_srv (currentRound_srv s)) [e]"
    and "users_srv (payout_one_srv flts s e) =
           spec_credits_srv (winningLine_srv (currentRound_srv s)) [e] (users_srv s)"
  using assms
  by (simp_all add: payout_one_srv_def Let_def emit_srv_fields spec_win_rows_srv_def
      spec_credits_srv_def case_prod_unfold split: option.splits)

lemma spec_win_rows_srv_Cons:
  "spec_win_rows_srv w (e # es) = spec_win_rows_srv w [e] @ spec_win_rows_srv w es"
  by (simp add: spec_win_rows_srv_def)

lemma spec_credits_srv_Cons:
  "spec_credits_srv w (e # es) us = spec_credits_srv w es (spec_credits_srv w [e] us)"
  by (simp add: spec_credits_srv_def)

lemma payout_loop_srv_ledger:
  assumes "\<forall>k. flts k = NoFault"
  shows "transactions_srv (foldl (payout_one_srv flts) s es) =
           transactions_srv s @ spec_win_rows_srv (winningLine_srv (currentRound_srv s)) es \<and>
         users_srv (foldl (payout_one_srv flts) s es) =
           spec_credits_srv (winningLine_srv (currentRound_srv s)) es (users_srv s)"
proof (induction es arbitrary: s)
  case Nil
  then show ?case by (simp add: spec_win_rows_srv_def spec_credits_srv_def)
next
  case (Cons e es)
  have h: "flts (fst e) = NoFault" using assms by simp
  show ?case
    using Cons.IH[of "payout_one_srv flts s e"]
    by (simp add: payout_one_srv_ledger[where e=e and flts=flts, OF h] payout_one_srv_round
        spec_win_rows_srv_Cons[of _ e es] spec_credits_srv_Cons[of _ e es])
qed

lemma processRoundResults_ledger:
  assumes "\<forall>k. flts k = NoFault"
  shows "transactions_srv (processRoundResults s flts) =
           transactions_srv s @ spec_win_rows_srv (winningLine_srv (currentRound_srv s))
             (finalBets_srv (currentRound_srv s))"
    and "users_srv (processRoundResults s flts) =
           spec_credits_srv (winningLine_srv (currentRound_srv s))
             (finalBets_srv (currentRound_srv s)) (users_srv s)"
  using payout_loop_srv_ledger[OF assms, of s "finalBets_srv (currentRound_srv s)"]
  by (simp_all add: processRoundResults_def)

subsection \<open>Its targeted notification\<close>

lemma notified_first_srv_refl:
  "distinct (map fst (userSessions_srv s)) \<Longrightarrow> notified_first_srv s s"
  by (simp add: notified_first_srv_def response_srv_def)

lemma notified_first_srv_step:
  assumes "notified_first_srv s0 s" "userSessions_srv s' = userSessions_srv s"
    "emitted_srv s' = emitted_srv s"
  shows "notified_first_srv s0 s'"
  using assms by (simp add: notified_first_srv_def response_srv_def)

lemma notified_first_srv_emit:
  assumes "notified_first_srv s0 s" "is_first (userSessions_srv s0) k"
  shows "notified_first_srv s0 (emit_srv (To k) m s)"
proof -
  have t: "take (length (emitted_srv s0)) (emitted_srv s) = emitted_srv s0"
    using assms by (simp add: notified_first_srv_def)
  then have l: "length (emitted_srv s0) \<le> length (emitted_srv s)"
    by (rule take_length_le)
  show ?thesis
    using assms l by (auto simp: notified_first_srv_def response_srv_def emit_srv_fields)
qed

lemma notified_first_srv_update:
  assumes "notified_first_srv s0 s" "map_of (userSessions_srv s) k = Some se"
    "is_first (userSessions_srv s0) k" "userId se' = userId se"
  shows "notified_first_srv s0 (s\<lparr>userSessions_srv := AList.update k se' (userSessions_srv s)\<rparr>)"
proof -
  define ss' where "ss' = AList.update k se' (userSessions_srv s)"
  have d: "distinct (map fst (userSessions_srv s))"
    and sh: "session_users (userSessions_srv s) = session_users (userSessions_srv s0)"
    and t: "take (length (emitted_srv s0)) (emitted_srv s) = emitted_srv s0"
    and r: "\<forall>tm\<in>set (response_srv s0 s). \<forall>k. fst tm = To k \<longrightarrow> is_first (userSessions_srv s0) k"
    and old: "\<forall>k'. \<not> is_first (userSessions_srv s0) k' \<longrightarrow>
        map_of (userSessions_srv s) k' = map_of (userSessions_srv s0) k'"
    using assms(1) by (simp_all add: notified_first_srv_def)
  have d': "distinct (map fst ss')"
    using d by (simp add: ss'_def distinct_update)
  have sh': "session_users ss' = session_users (userSessions_srv s0)"
    using session_users_update[OF assms(2), of se'] assms(4) sh by (simp add: ss'_def)
  have m: "\<And>k'. k' \<noteq> k \<Longrightarrow> map_of ss' k' = map_of (userSessions_srv s) k'"
    by (simp add: ss'_def update_conv')
  have m0: "\<forall>k'. \<not> is_first (userSessions_srv s0) k' \<longrightarrow>
        map_of ss' k' = map_of (userSessions_srv s0) k'"
  proof (intro allI impI)
    fix k' assume n: "\<not> is_first (userSessions_srv s0) k'"
    then have "k' \<noteq> k" using assms(3) by auto
    then show "map_of ss' k' = map_of (userSessions_srv s0) k'" using m old n by simp
  qed
  have r': "\<forall>tm\<in>set (response_srv s0 (s\<lparr>userSessions_srv := ss'\<rparr>)).
        \<forall>k. fst tm = To k \<longrightarrow> is_first (userSessions_srv s0) k"
    using r by (simp add: response_srv_def)
  show ?thesis
    unfolding notified_first_srv_def ss'_def[symmetric]
    using d' sh' m0 r' t by simp
qed

lemma notified_first_srv_payout_one:
  assumes "notified_first_srv s0 s"
  shows "notified_first_srv s0 (payout_one_srv flts s e)"
proof -
  define uid where "uid = fst e"
  define r where "r = currentRound_srv s"
  define a where "a = obj_get (fst (snd e)) (winning_key (winningLine_srv r)) * 2"
  define s1 where "s1 = s\<lparr> users_srv := add_balance uid a (users_srv s),
       transactions_srv := transactions_srv s @
         [\<lparr> tx_user = uid, tx_amount = a, tx_type = Win, tx_descr = WonOn (winningLine_srv r) \<rparr>],
       game_rounds_srv := game_rounds_srv s @ [(id_srv r, winningLine_srv r)] \<rparr>"
  have n1: "notified_first_srv s0 s1"
    by (rule notified_first_srv_step[OF assms]) (simp_all add: s1_def)
  have ss1: "userSessions_srv s1 = userSessions_srv s" by (simp add: s1_def)
  have d: "distinct (map fst (userSessions_srv s))"
    and sh: "session_users (userSessions_srv s) = session_users (userSessions_srv s0)"
    using assms by (simp_all add: notified_first_srv_def)
  show ?thesis
  proof (cases "first_session (userSessions_srv s) uid")
    case None
    then show ?thesis
      using assms n1
      by (simp add: payout_one_srv_def Let_def uid_def[symmetric] r_def[symmetric]
          a_def[symmetric] s1_def[symmetric] ss1)
  next
    case (Some kse)
    obtain k se where kse: "kse = (k, se)" by (cases kse) auto
    have fs: "map_of (userSessions_srv s) k = Some se" "is_first (userSessions_srv s) k"
      using first_session_Some[OF Some[unfolded kse] d] by simp_all
    have f0: "is_first (userSessions_srv s0) k"
      using fs(2) is_first_shape[OF sh] by simp
    have lose: "notified_first_srv s0
        (emit_srv (To k) (RoundEnd (id_srv r) (winningLine_srv r) 0 (balance se)) s)"
      by (rule notified_first_srv_emit[OF assms f0])
    have win: "\<And>b. notified_first_srv s0
        ((emit_srv (To k) (RoundEnd (id_srv r) (winningLine_srv r) a b) s1)
           \<lparr>userSessions_srv := AList.update k (se\<lparr>balance := b\<rparr>) (userSessions_srv s1)\<rparr>)"
    proof -
      fix b
      let ?t = "emit_srv (To k) (RoundEnd (id_srv r) (winningLine_srv r) a b) s1"
      have nt: "notified_first_srv s0 ?t" by (rule notified_first_srv_emit[OF n1 f0])
      have mt: "map_of (userSessions_srv ?t) k = Some se"
        using fs(1) by (simp add: emit_srv_fields ss1)
      have "notified_first_srv s0
          (?t\<lparr>userSessions_srv := AList.update k (se\<lparr>balance := b\<rparr>) (userSessions_srv ?t)\<rparr>)"
        by (rule notified_first_srv_update[OF nt mt f0]) simp
      then show "notified_first_srv s0
          (?t\<lparr>userSessions_srv := AList.update k (se\<lparr>balance := b\<rparr>) (userSessions_srv s1)\<rparr>)"
        by (simp add: emit_srv_fields)
    qed
    show ?thesis
      using assms n1 lose win Some kse
      by (simp add: payout_one_srv_def Let_def uid_def[symmetric] r_def[symmetric]
          a_def[symmetric] s1_def[symmetric] ss1 split: option.splits prod.splits)
  qed
qed

lemma notified_first_srv_process:
  assumes "distinct (map fst (userSessions_srv s))"
  shows "notified_first_srv s (processRoundResults s flts)"
proof -
  have "\<And>t. notified_first_srv s t \<Longrightarrow> notified_first_srv s (foldl (payout_one_srv flts) t es)" for es
    by (induction es) (simp_all add: notified_first_srv_payout_one)
  then show ?thesis
    using notified_first_srv_refl[OF assms] by (simp add: processRoundResults_def)
qed

section \<open>Claim on the debit of a finalization\<close>

text \<open>
  C1 is broken by the code: \<^verbatim>\<open>submit_final_bets\<close> of \<^verbatim>\<open>game/luckyFive.js\<close> debits the total
  that the client sends (\<^verbatim>\<open>Number(payload.totalAmount || sum)\<close>) and never compares it with
  the submitted lines. In the example run, after \<^verbatim>\<open>freeze_bets\<close>, the connection submits 100 on
  line 1 with a total of 1: the submission is accepted, the balance goes from 1000 to 999, the
  \<^verbatim>\<open>bet\<close> row and the wager row that are written are of 100, and the snapshot that will be
  paid holds 100 on line 1. With a total of -500 the submission is accepted and the balance
  goes from 1000 to 1500. An empty submission is accepted and leaves the balance at 1000.
\<close>

theorem finalize_total_counterexample:
  "frozen_announced demo_frozen \<and> users demo_frozen 1 = Some (''alice'', 1000) \<and>
   transactions demo_frozen = [] \<and>
   p_bets cheap_payload = [(''line1'', 100)] \<and> p_totalAmount cheap_payload = Some 1 \<and>
   lines_sum (p_bets cheap_payload) = 100 \<and>
   accepted demo_frozen (submit_final_bets demo_frozen ''sockA'' cheap_payload NoFault) \<and>
   users (submit_final_bets demo_frozen ''sockA'' cheap_payload NoFault) 1 = Some (''alice'', 999) \<and>
   transactions (submit_final_bets demo_frozen ''sockA'' cheap_payload NoFault) =
     [\<lparr> tx_user = 1, tx_amount = 100, tx_type = Bet, tx_descr = BetDescr ''line1'' 1000000 \<rparr>] \<and>
   player_bets (submit_final_bets demo_frozen ''sockA'' cheap_payload NoFault) =
     [(Some 1, 1, ''line1'', 100)] \<and>
   finalized (submit_final_bets demo_frozen ''sockA'' cheap_payload NoFault) ''sockA'' =
     Some \<lparr> s_userId = 1, s_bets = [(''line1'', 100)], s_totalAmount = 1 \<rparr> \<and>
   p_bets negative_payload = [(''line1'', 100)] \<and> p_totalAmount negative_payload = Some (- 500) \<and>
   accepted demo_frozen (submit_final_bets demo_frozen ''sockA'' negative_payload NoFault) \<and>
   users (submit_final_bets demo_frozen ''sockA'' negative_payload NoFault) 1 =
     Some (''alice'', 1500) \<and>
   p_bets empty_payload = [] \<and>
   accepted demo_frozen (submit_final_bets demo_frozen ''sockA'' empty_payload NoFault) \<and>
   users (submit_final_bets demo_frozen ''sockA'' empty_payload NoFault) 1 = Some (''alice'', 1000)"
proof -
  have c: "p_roundId cheap_payload = 1000000" "submitted_total cheap_payload \<le> 1000"
    "p_bets cheap_payload = [(''line1'', 100)]" "p_totalAmount cheap_payload = Some 1"
    by (simp_all add: payload_totals) (simp_all add: cheap_payload_def)
  have n: "p_roundId negative_payload = 1000000" "submitted_total negative_payload \<le> 1000"
    "p_bets negative_payload = [(''line1'', 100)]" "p_totalAmount negative_payload = Some (- 500)"
    "submitted_total negative_payload = - 500"
    by (simp_all add: negative_payload_def submitted_total_def)
  have e: "p_roundId empty_payload = 1000000" "submitted_total empty_payload \<le> 1000"
    "p_bets empty_payload = []"
    by (simp_all add: payload_totals) (simp_all add: empty_payload_def)
  have u: "users demo_frozen 1 = Some (''alice'', 1000)" "transactions demo_frozen = []"
    "player_bets demo_frozen = []" "startTime (cur demo_frozen) = 1000000"
    "persistedRoundId (cur demo_frozen) = Some (Suc 0)" "frozen_announced demo_frozen"
    by (simp_all add: demo_frozen_eval demo_users_def cur_def frozen_announced_def broadcasts_def)
  have l: "lines_sum (p_bets cheap_payload) = 100" by (simp add: c(3) lines_sum_def obj_get_def)
  have t: "transactions (submit_final_bets demo_frozen ''sockA'' cheap_payload NoFault) =
     [\<lparr> tx_user = 1, tx_amount = 100, tx_type = Bet, tx_descr = BetDescr ''line1'' 1000000 \<rparr>]"
    "player_bets (submit_final_bets demo_frozen ''sockA'' cheap_payload NoFault) =
     [(Some 1, 1, ''line1'', 100)]"
    by (simp_all add: demo_frozen_commit[OF c(1,2)] commit_bets_fields u c(3) bet_entries_def
        bet_rows_def)
  show ?thesis
    using demo_frozen_accepts[OF c(1,2)] demo_frozen_accepts(1,2)[OF n(1,2)]
      demo_frozen_accepts(1,2)[OF e(1,2)] u(1,2,6) l t c(3,4) n(3,4) e(3)
    by (simp add: payload_totals n(5))
qed

section \<open>Claim on insufficient funds\<close>



section \<open>Claim on placing after the freeze\<close>

text \<open>
  C3 is broken by the code: \<^verbatim>\<open>place_bet\<close> never looks at the phase. In the example run after
  \<^verbatim>\<open>freeze_bets\<close> was broadcast for the round (its freeze timer has fired), adding 10 on line 1
  is applied to the wager store and acknowledged with the new sheet.
\<close>

theorem place_bet_after_freeze:
  "frozen_announced demo_frozen \<and> (0, TFreeze) \<notin> set (targets demo_frozen) \<and>
   stake demo_frozen ''sockA'' ''line1'' = 0 \<and>
   response demo_frozen (place_bet demo_frozen ''sockA'' (Some late_bet)) =
     [(To ''sockA'', PlaceBetAck [(''line1'', Num 10), (''line2'', Num 0), (''line3'', Num 0),
        (''line4'', Num 0), (''line5'', Num 0)])] \<and>
   stake (place_bet demo_frozen ''sockA'' (Some late_bet)) ''sockA'' ''line1'' = 10"
proof -
  have f: "frozen_announced demo_frozen" "(0, TFreeze) \<notin> set (targets demo_frozen)"
    "bets (cur demo_frozen) = []"
    by (simp_all add: demo_frozen_eval frozen_announced_def broadcasts_def cur_def targets_def)
  have a: "apply_bet (get_bets (init_bets [] ''sockA'') ''sockA'') late_bet =
      [(''line1'', Num 10), (''line2'', Num 0), (''line3'', Num 0), (''line4'', Num 0),
       (''line5'', Num 0)]"
    by (simp add: apply_bet_def js_assign_def late_bet_def get_bets_init_bets zero_sheet_def
        to_double_def)
  show ?thesis
    using f(1,2)
    by (simp add: stake_def cur_place_bet response_place_bet f(3) a get_bets_update)
       (simp add: get_bets_def)
qed

section \<open>Claim on finalizing once, after the freeze\<close>

text \<open>
  C4 is broken by the code: \<^verbatim>\<open>submit_final_bets\<close> of \<^verbatim>\<open>game/luckyFive.js\<close> has no check of
  the phase and none of an earlier submission. In the example run the freeze timer is still
  armed and \<^verbatim>\<open>freeze_bets\<close> was not broadcast, yet the submission of 100 on line 3 is accepted,
  and so is its repetition: the balance goes from 1000 to 900 and then to 800, two \<^verbatim>\<open>bet\<close>
  rows are written, and the round keeps one snapshot of 100 for the connection.
\<close>

theorem finalize_once_counterexample:
  "(0, TFreeze) \<in> set (targets demo) \<and> \<not> frozen_announced demo \<and>
   p_roundId line3_payload = startTime (cur demo) \<and>
   demo_once = submit_final_bets demo ''sockA'' line3_payload NoFault \<and>
   demo_twice = submit_final_bets demo_once ''sockA'' line3_payload NoFault \<and>
   accepted demo demo_once \<and> accepted demo_once demo_twice \<and>
   users demo 1 = Some (''alice'', 1000) \<and> users demo_once 1 = Some (''alice'', 900) \<and>
   users demo_twice 1 = Some (''alice'', 800) \<and>
   transactions demo_twice =
     [\<lparr> tx_user = 1, tx_amount = 100, tx_type = Bet, tx_descr = BetDescr ''line3'' 1000000 \<rparr>,
      \<lparr> tx_user = 1, tx_amount = 100, tx_type = Bet, tx_descr = BetDescr ''line3'' 1000000 \<rparr>] \<and>
   finalBets (cur demo_twice) =
     [(''sockA'', \<lparr> s_userId = 1, s_bets = [(''line3'', 100)], s_totalAmount = 100 \<rparr>)]"
proof -
  have c: "p_roundId line3_payload = 1000000" "submitted_total line3_payload \<le> 1000"
    "p_bets line3_payload = [(''line3'', 100)]"
    by (simp_all add: payload_totals) (simp_all add: line3_payload_def)
  have o: "demo_once = commit_bets demo ''sockA'' 1 1000 line3_payload"
    unfolding demo_once_def by (rule demo_commit[OF c(1,2)])
  have d: "(0, TFreeze) \<in> set (targets demo)" "\<not> frozen_announced demo"
    "users demo 1 = Some (''alice'', 1000)" "startTime (cur demo) = 1000000"
    "transactions demo = []" "finalBets (cur demo) = []"
    by (simp_all add: demo_eval targets_def frozen_announced_def broadcasts_def demo_users_def
        cur_def)
  have u1: "users demo_once 1 = Some (''alice'', 900)"
    using d(3) by (simp add: o commit_bets_fields add_balance_def payload_totals)
  have a1: "accepted demo demo_once"
    by (simp add: o accepted_def commit_bets_fields)
  have s1: "map_of (userSessions demo_once) ''sockA'' =
      Some \<lparr> userId = 1, username = ''alice'', balance = 900 \<rparr>"
    by (simp add: o commit_bets_fields set_session_balance_def demo_eval update_conv'
        payload_totals)
  have r1: "startTime (cur demo_once) = 1000000"
    by (simp add: o commit_bets_def Let_def emit_def cur_def demo_eval)
  have t1: "transactions demo_once =
     [\<lparr> tx_user = 1, tx_amount = 100, tx_type = Bet, tx_descr = BetDescr ''line3'' 1000000 \<rparr>]"
    "finalBets (cur demo_once) =
     [(''sockA'', \<lparr> s_userId = 1, s_bets = [(''line3'', 100)], s_totalAmount = 100 \<rparr>)]"
    by (simp_all add: o commit_bets_fields d c(3) bet_entries_def payload_totals)
  have i: "userId \<lparr> userId = 1, username = ''alice'', balance = 900 \<rparr> \<noteq> 0" by simp
  have u1': "users demo_once (userId \<lparr> userId = 1, username = ''alice'', balance = 900 \<rparr>) =
      Some (''alice'', 900)" using u1 by simp
  have tw: "demo_twice = commit_bets demo_once ''sockA'' 1 900 line3_payload"
    unfolding demo_twice_def submit_final_bets_def
    using submit_core_accept[OF s1 i _ _ u1', of line3_payload NoFault "''Server error''"]
    by (simp add: r1 c(1) payload_totals)
  have a2: "accepted demo_once demo_twice"
    by (simp add: tw accepted_def commit_bets_fields)
  have u2: "users demo_twice 1 = Some (''alice'', 800)"
    using u1 by (simp add: tw commit_bets_fields add_balance_def payload_totals)
  have t2: "transactions demo_twice =
     [\<lparr> tx_user = 1, tx_amount = 100, tx_type = Bet, tx_descr = BetDescr ''line3'' 1000000 \<rparr>,
      \<lparr> tx_user = 1, tx_amount = 100, tx_type = Bet, tx_descr = BetDescr ''line3'' 1000000 \<rparr>]"
    "finalBets (cur demo_twice) =
     [(''sockA'', \<lparr> s_userId = 1, s_bets = [(''line3'', 100)], s_totalAmount = 100 \<rparr>)]"
    by (simp_all add: tw commit_bets_fields t1 r1 c(3) bet_entries_def payload_totals)
  have k: "p_roundId line3_payload = startTime (cur demo)" by (simp add: c(1) d(4))
  show ?thesis
    using d(1,2,3) k a1 a2 u1 u2 t2 by (simp add: demo_once_def demo_twice_def)
qed

section \<open>Claim on the winning line\<close>

text \<open>
  C5. In every run of the timer-driven engine (state \<open>s\<close>, next event \<open>e\<close>): the current
  round has no winning line; every superseded round (the rounds that reached the result) has a
  winning line in 1..5 and is never changed by a later step; and a step gives the current round
  its winning line only by firing its result timer, which happens after \<^verbatim>\<open>freeze_bets\<close> was
  broadcast for it, draws a line in 1..5 and supersedes the round in the same step.
  In every run of the interval-driven engine (state \<open>t\<close>, next event \<open>e'\<close>): every superseded
  round has a winning line in 1..5 and is never changed; a winning line of the current round is
  in 1..5, was set after the freeze was announced and is kept by every step; and only a tick at
  or after the result time sets it, to a line in 1..5, with the freeze announced.
\<close>

theorem winning_line_set_once:
  assumes "reachable s" "wf_event e" "reachable_iv t" "wf_event_iv e'"
  shows "winningLine (cur s) = None \<and>
     (\<forall>g<currentRound s. (\<exists>w. winningLine (rounds s g) = Some w \<and> 1 \<le> w \<and> w \<le> 5) \<and>
        rounds (step s e) g = rounds s g) \<and>
     (winningLine (rounds (step s e) (currentRound s)) \<noteq> None \<longrightarrow>
        frozen_announced s \<and> currentRound (step s e) = Suc (currentRound s) \<and>
        (\<exists>now u now2 pflt flts. e = Fire now u now2 pflt flts \<and>
           winningLine (rounds (step s e) (currentRound s)) = Some (draw_line u) \<and>
           1 \<le> draw_line u \<and> draw_line u \<le> 5)) \<and>
     (\<forall>g<currentRound t. (\<exists>w. winningLine (rounds t g) = Some w \<and> 1 \<le> w \<and> w \<le> 5) \<and>
        rounds (step_iv t e') g = rounds t g) \<and>
     (\<forall>w. winningLine (cur t) = Some w \<longrightarrow>
        1 \<le> w \<and> w \<le> 5 \<and> freezeAnnounced (cur t) \<and>
        winningLine (rounds (step_iv t e') (currentRound t)) = Some w) \<and>
     (winningLine (cur t) = None \<and> winningLine (rounds (step_iv t e') (currentRound t)) \<noteq> None \<longrightarrow>
        (\<exists>now u pflt. e' = Tick now u pflt \<and> resultTime (cur t) \<le> now \<and>
           winningLine (rounds (step_iv t e') (currentRound t)) = Some (draw_line u) \<and>
           1 \<le> draw_line u \<and> draw_line u \<le> 5 \<and>
           freezeAnnounced (rounds (step_iv t e') (currentRound t))))"
proof -
  have i: "inv s" using assms(1) by (rule reachable_inv)
  have a: "winningLine (cur s) = None" using i by (simp add: inv_def Let_def)
  have b: "\<forall>g<currentRound s. (\<exists>w. winningLine (rounds s g) = Some w \<and> 1 \<le> w \<and> w \<le> 5) \<and>
        rounds (step s e) g = rounds s g"
    using i step_frame[OF i] by (simp add: inv_def Let_def)
  have c: "winningLine (rounds (step s e) (currentRound s)) \<noteq> None \<longrightarrow>
        frozen_announced s \<and> currentRound (step s e) = Suc (currentRound s) \<and>
        (\<exists>now u now2 pflt flts. e = Fire now u now2 pflt flts \<and>
           winningLine (rounds (step s e) (currentRound s)) = Some (draw_line u) \<and>
           1 \<le> draw_line u \<and> draw_line u \<le> 5)"
  proof (cases e)
    case (Fire now u now2 pflt flts)
    then have u: "0 \<le> u" "u < 1" using assms(2) by simp_all
    show ?thesis using fire_draw[OF i u, of now now2 pflt flts] draw_line_range[OF u] Fire by simp
  next
    case (OnAuthenticate sock tok flt)
    then show ?thesis using socket_no_draw[OF i same_schedule_socket(1)] by simp
  next
    case (OnJoinGame sock now)
    then show ?thesis using socket_no_draw[OF i same_schedule_socket(2)] by simp
  next
    case (OnPlaceBet sock dat)
    then show ?thesis using socket_no_draw[OF i same_schedule_socket(3)] by simp
  next
    case (OnSubmitFinalBets sock p flt)
    then show ?thesis using socket_no_draw[OF i same_schedule_socket(4)] by simp
  next
    case (OnDisconnect sock)
    then show ?thesis using socket_no_draw[OF i same_schedule_socket(5)] by simp
  qed
  have j: "inv_iv t" using assms(3) by (rule reachable_iv_inv)
  have b': "\<forall>g<currentRound t. (\<exists>w. winningLine (rounds t g) = Some w \<and> 1 \<le> w \<and> w \<le> 5) \<and>
        rounds (step_iv t e') g = rounds t g"
    using j step_iv_frame[OF j] by (simp add: inv_iv_def Let_def)
  have k': "\<forall>w. winningLine (cur t) = Some w \<longrightarrow>
        1 \<le> w \<and> w \<le> 5 \<and> freezeAnnounced (cur t) \<and>
        winningLine (rounds (step_iv t e') (currentRound t)) = Some w"
    using j step_iv_keep[OF j] by (simp add: inv_iv_def Let_def)
  have d': "winningLine (cur t) = None \<and> winningLine (rounds (step_iv t e') (currentRound t)) \<noteq> None \<longrightarrow>
        (\<exists>now u pflt. e' = Tick now u pflt \<and> resultTime (cur t) \<le> now \<and>
           winningLine (rounds (step_iv t e') (currentRound t)) = Some (draw_line u) \<and>
           1 \<le> draw_line u \<and> draw_line u \<le> 5 \<and>
           freezeAnnounced (rounds (step_iv t e') (currentRound t)))"
  proof (intro impI, elim conjE)
    assume n: "winningLine (cur t) = None"
      and m: "winningLine (rounds (step_iv t e') (currentRound t)) \<noteq> None"
    from step_iv_draw[OF j n m] obtain now u pflt where
      h: "e' = Tick now u pflt" "resultTime (cur t) \<le> now"
        "winningLine (rounds (step_iv t e') (currentRound t)) = Some (draw_line u)"
        "freezeAnnounced (rounds (step_iv t e') (currentRound t))"
      by blast
    have "0 \<le> u" "u < 1" using assms(4) h(1) by simp_all
    then have "1 \<le> draw_line u \<and> draw_line u \<le> 5" by (rule draw_line_range)
    then show "\<exists>now u pflt. e' = Tick now u pflt \<and> resultTime (cur t) \<le> now \<and>
           winningLine (rounds (step_iv t e') (currentRound t)) = Some (draw_line u) \<and>
           1 \<le> draw_line u \<and> draw_line u \<le> 5 \<and>
           freezeAnnounced (rounds (step_iv t e') (currentRound t))"
      using h by blast
  qed
  show ?thesis using a b c b' k' d' by blast
qed

text \<open>The theorem at the example runs: the result timer fires at clock 1030000 with the random
  number 1/2, which draws line 3; the first tick of the interval-driven engine at clock 1027000
  draws line 1 with the random number 0, and the next tick keeps it.\<close>

theorem winning_line_set_once_witness:
  "reachable demo_frozen \<and> wf_event (Fire 1030000 (1/2) 1030050 NoFault (\<lambda>_. NoFault)) \<and>
   winningLine (cur demo_frozen) = None \<and> frozen_announced demo_frozen \<and>
   winningLine (rounds (step demo_frozen (Fire 1030000 (1/2) 1030050 NoFault (\<lambda>_. NoFault))) 0) = Some 3 \<and>
   currentRound (step demo_frozen (Fire 1030000 (1/2) 1030050 NoFault (\<lambda>_. NoFault))) = 1 \<and>
   reachable_iv demo_iv \<and> wf_event_iv (Tick 1027500 (1/2) NoFault) \<and>
   winningLine (cur demo_iv) = Some 1 \<and> freezeAnnounced (cur demo_iv) \<and>
   winningLine (rounds (step_iv demo_iv (Tick 1027500 (1/2) NoFault)) 0) = Some 1"
proof -
  have w: "wf_event (Fire 1030000 (1/2) 1030050 NoFault (\<lambda>_. NoFault))" by simp
  have w': "wf_event_iv (Tick 1027500 (1/2) NoFault)" by simp
  have c: "currentRound demo_frozen = 0" by (simp add: demo_frozen_eval)
  have c': "currentRound demo_iv = 0" "winningLine (cur demo_iv) = Some 1"
    by (simp_all add: demo_iv_eval cur_def)
  show ?thesis
    using winning_line_set_once[OF reachable_demo_frozen w reachable_demo_iv w']
      reachable_demo_frozen w demo_draw reachable_demo_iv w' c'(2)
    by (simp add: c c'(1))
qed

section \<open>Claim on the payouts\<close>

text \<open>
  The settlement of the timer-driven engine, when no database call fails: the \<^verbatim>\<open>win\<close> rows
  that it appends are, for the entries of the finalized map in order, one row of the amount on
  the winning line times \<open>WIN_MULTIPLIER\<close> for each entry where that amount is positive, and
  none for the others; the accounts are credited by the same amounts for the same entries.
\<close>

lemma settle_pays_by_multiplier:
  assumes "\<forall>k. flts k = NoFault" "\<forall>e\<in>set (finalBets (rounds s g)). s_userId (snd e) \<noteq> 0"
    "map_of (userSessions t) sock = Some sess" "userId sess \<noteq> 0"
    "users t (userId sess) = Some (n, initial)" "100 \<le> initial" "finalBets (cur t) = []"
    "draw_line u' = 3"
  shows "transactions (settle s g u now pflt flts) =
           transactions s @ spec_win_rows (draw_line u)
             (persistedRoundId (rounds (settle s g u now pflt flts) g)) (finalBets (rounds s g)) \<and>
         users (settle s g u now pflt flts) =
           spec_credits (draw_line u) (finalBets (rounds s g)) (users s) \<and>
         users (settle (submit_final_bets t sock
            \<lparr> p_roundId = startTime (cur t), p_bets = [(''line3'', 100)], p_totalAmount = Some 100 \<rparr>
            NoFault) (currentRound t) u' now' pflt' flts) (userId sess) = Some (n, initial - 100 + 500)"
  using settle_ledger[OF assms(1,2)] scenario_a[OF assms(1,3,4,5,6,7,8)] by simp

text \<open>The example run: 100 on line 3 finalized from a balance of 1000, line 3 drawn with the
  random number 1/2, and line 1 drawn with the random number 0.\<close>

lemma settle_scenario_a:
  "finalBets (rounds demo_final 0) =
     [(''sockA'', \<lparr> s_userId = 1, s_bets = [(''line3'', 100)], s_totalAmount = 100 \<rparr>)] \<and>
   draw_line (1/2) = 3 \<and> users demo_frozen 1 = Some (''alice'', 1000) \<and>
   transactions (settle demo_final 0 (1/2) 1030000 NoFault (\<lambda>_. NoFault)) =
     [\<lparr> tx_user = 1, tx_amount = 100, tx_type = Bet, tx_descr = BetDescr ''line3'' 1000000 \<rparr>,
      \<lparr> tx_user = 1, tx_amount = 500, tx_type = Win, tx_descr = WinDescr 3 (Some 1) \<rparr>] \<and>
   users (settle demo_final 0 (1/2) 1030000 NoFault (\<lambda>_. NoFault)) 1 = Some (''alice'', 1400) \<and>
   draw_line 0 = 1 \<and>
   users (settle demo_final 0 0 1030000 NoFault (\<lambda>_. NoFault)) 1 = Some (''alice'', 900)"
proof -
  have c: "p_roundId line3_payload = 1000000" "submitted_total line3_payload \<le> 1000"
    by (simp_all add: payload_totals) (simp add: line3_payload_def)
  have e: "demo_final = commit_bets demo_frozen ''sockA'' 1 1000 line3_payload"
    unfolding demo_final_def by (rule demo_frozen_commit[OF c])
  have l: "line3_payload = \<lparr> p_roundId = startTime (cur demo_frozen), p_bets = [(''line3'', 100)],
      p_totalAmount = Some 100 \<rparr>"
    by (simp add: line3_payload_def demo_frozen_eval cur_def)
  have f: "finalBets (rounds demo_final 0) =
     [(''sockA'', \<lparr> s_userId = 1, s_bets = [(''line3'', 100)], s_totalAmount = 100 \<rparr>)]"
    using commit_bets_fields(6)[of demo_frozen "''sockA''" 1 1000 line3_payload]
    by (simp add: e payload_totals)
       (simp add: commit_bets_def Let_def emit_def cur_def demo_frozen_eval line3_payload_def)
  have t: "transactions demo_final =
     [\<lparr> tx_user = 1, tx_amount = 100, tx_type = Bet, tx_descr = BetDescr ''line3'' 1000000 \<rparr>]"
    by (simp add: e commit_bets_fields bet_entries_def)
       (simp add: demo_frozen_eval cur_def line3_payload_def)
  have p: "persistedRoundId (rounds (settle demo_final 0 (1/2) 1030000 NoFault (\<lambda>_. NoFault)) 0) = Some 1"
    by (simp add: settle_rounds e commit_bets_def Let_def emit_def demo_frozen_eval cur_def)
  have d: "draw_line (1/2) = 3" by (simp add: draw_line_def)
  have s: "map_of (userSessions demo_frozen) ''sockA'' = Some \<lparr> userId = 1, username = ''alice'', balance = 1000 \<rparr>"
    "users demo_frozen 1 = Some (''alice'', 1000)" "finalBets (cur demo_frozen) = []"
    by (simp_all add: demo_frozen_eval demo_users_def cur_def)
  have i: "\<forall>e\<in>set (finalBets (rounds demo_final 0)). s_userId (snd e) \<noteq> 0" by (simp add: f)
  have k: "currentRound demo_frozen = 0" by (simp add: demo_frozen_eval)
  have na: "\<forall>k::sockid. (\<lambda>_. NoFault) k = NoFault" by simp
  have ui: "userId \<lparr> userId = 1, username = ''alice'', balance = 1000 \<rparr> \<noteq> 0" by simp
  have u: "users demo_frozen (userId \<lparr> userId = 1, username = ''alice'', balance = 1000 \<rparr>) =
      Some (''alice'', 1000)" using s(2) by simp
  have ge: "(100::int) \<le> 1000" by simp
  note th = settle_pays_by_multiplier[of "\<lambda>_. NoFault" demo_final 0 demo_frozen "''sockA''"
        "\<lparr> userId = 1, username = ''alice'', balance = 1000 \<rparr>" "''alice''" 1000 "1/2" "1/2"
        1030000 NoFault 1030000 NoFault, OF na i s(1) ui u ge s(3) d]
  have a: "transactions (settle demo_final 0 (1/2) 1030000 NoFault (\<lambda>_. NoFault)) =
     [\<lparr> tx_user = 1, tx_amount = 100, tx_type = Bet, tx_descr = BetDescr ''line3'' 1000000 \<rparr>,
      \<lparr> tx_user = 1, tx_amount = 500, tx_type = Win, tx_descr = WinDescr 3 (Some 1) \<rparr>]"
    using th[THEN conjunct1]
    by (simp add: f t p d spec_win_rows_def line_key_def obj_get_def WIN_MULTIPLIER_def)
  have c: "users (settle demo_final 0 (1/2) 1030000 NoFault (\<lambda>_. NoFault)) 1 = Some (''alice'', 1400)"
    using th[THEN conjunct2, THEN conjunct2]
    by (simp add: l[symmetric] k demo_final_def[symmetric])
  have ud: "users demo_final 1 = Some (''alice'', 900)"
    using s(2) by (simp add: e commit_bets_fields add_balance_def payload_totals)
  have d1: "draw_line 0 = 1" by (simp add: draw_line_def)
  have m: "users (settle demo_final 0 0 1030000 NoFault (\<lambda>_. NoFault)) 1 = Some (''alice'', 900)"
    using settle_ledger(2)[OF na i, of 0 1030000 NoFault] ud
    by (simp add: f d1 spec_credits_def line_key_def obj_get_def WIN_MULTIPLIER_def)
  show ?thesis using f d s(2) a c d1 m by simp
qed

lemma srv_frozen_eval: "srv_frozen =
   \<lparr> currentRound_srv = \<lparr> id_srv = 1000000, startTime_srv = 1000000, freezeTime_srv = 1025000,
       endTime_srv = 1030000, nextRoundTime_srv = 1033000, isBettingOpen = False,
       winningLine_srv = None, finalBets_srv = [] \<rparr>,
     userSessions_srv = [(''sockA'', \<lparr> userId = 1, username = ''alice'', balance = 1000,
       pendingBets = [(''line3'', 100)] \<rparr>)],
     users_srv = demo_users, transactions_srv = [], game_rounds_srv = [],
     emitted_srv = [(To ''sockA'', UserData 1000 1), (To ''sockA'', PendingBetUpdated ''3'' 100 1000),
       (Broadcast, FreezeBets_srv 1000000), (Broadcast, TimerUpdate False)] \<rparr>"
  by (simp add: srv_frozen_def srv_open_def gameTick_def freezeBets_def update_pending_bet_def
      authenticate_srv_def init_srv_def GameRound_def emit_srv_def demo_users_def bet3_def
      obj_get_def Let_def)

lemma srv_final_eval: "srv_final =
   \<lparr> currentRound_srv = \<lparr> id_srv = 1000000, startTime_srv = 1000000, freezeTime_srv = 1025000,
       endTime_srv = 1030000, nextRoundTime_srv = 1033000, isBettingOpen = False,
       winningLine_srv = None, finalBets_srv = [(1, [(''line3'', 100)], 100)] \<rparr>,
     userSessions_srv = [(''sockA'', \<lparr> userId = 1, username = ''alice'', balance = 900,
       pendingBets = [] \<rparr>)],
     users_srv = demo_users(1 := Some (''alice'', 900)),
     transactions_srv = [\<lparr> tx_user = 1, tx_amount = 100, tx_type = Bet, tx_descr = BetOn ''line3'' \<rparr>],
     game_rounds_srv = [],
     emitted_srv = [(To ''sockA'', UserData 1000 1), (To ''sockA'', PendingBetUpdated ''3'' 100 1000),
       (Broadcast, FreezeBets_srv 1000000), (Broadcast, TimerUpdate False),
       (To ''sockA'', FinalBetsSubmitted [(''line3'', 100)] 900)] \<rparr>"
  by (simp add: srv_final_def srv_frozen_eval submit_final_bets_srv_def emit_srv_def
      demo_users_def sum_values_def add_balance_def bet_entries_srv_def Let_def)

lemma srv_drawn_eval: "srv_drawn = srv_final
   \<lparr> currentRound_srv := (currentRound_srv srv_final)\<lparr>winningLine_srv := Some 3\<rparr>,
     emitted_srv := emitted_srv srv_final @
       [(Broadcast, AnnounceWinner 3 1000000), (Broadcast, TimerUpdate False)] \<rparr>"
  by (simp add: srv_drawn_def srv_final_eval gameTick_def announceWinner_def emit_srv_def
      draw_line_def Let_def)

lemma gameTick_idle:
  assumes "\<not> isBettingOpen (currentRound_srv s)" "winningLine_srv (currentRound_srv s) = Some w"
    "w \<noteq> 0" "now < nextRoundTime_srv (currentRound_srv s)"
  shows "gameTick s now u idnow now2 = emit_srv Broadcast (TimerUpdate False) s"
  using assms by (simp add: gameTick_def Let_def)

lemma process_one:
  assumes "finalBets_srv (currentRound_srv s) = [(uid, bs, tot)]"
    "winningLine_srv (currentRound_srv s) = Some 3" "obj_get bs ''line3'' = 100"
    "users_srv s uid = Some (n, b)"
  shows "users_srv (processRoundResults s (\<lambda>_. NoFault)) uid = Some (n, b + 200)"
    and "transactions_srv (processRoundResults s (\<lambda>_. NoFault)) = transactions_srv s @
      [\<lparr> tx_user = uid, tx_amount = 200, tx_type = Win, tx_descr = WonOn (Some 3) \<rparr>]"
    and "currentRound_srv (processRoundResults s (\<lambda>_. NoFault)) = currentRound_srv s"
  using assms processRoundResults_ledger[of "\<lambda>_. NoFault" s]
  by (simp_all add: spec_win_rows_srv_def spec_credits_srv_def winning_key_def line_key_def
      add_balance_def processRoundResults_def payout_one_srv_round)

text \<open>
  C6 is broken by \<^verbatim>\<open>src/server.js\<close>: its interval calls \<^verbatim>\<open>processRoundResults()\<close> on every
  tick from the end time of the round on, until the next round is started three seconds later,
  and each call pays every winning entry again, with the factor 2. In the example run a user
  with a balance of 1000 finalizes 100 on line 3 (balance 900) and line 3 is drawn: the results
  are due at the tick at 1030000 and still due at the tick at 1031000, the round is the same at
  both, and the balance goes to 1100 and then to 1300, with two \<^verbatim>\<open>win\<close> rows of 200. (When
  line 1 is drawn instead, nothing is paid.) The timer-driven engine settles the same stake
  once, in its result timer, with \<open>WIN_MULTIPLIER = 5\<close>: the balance goes from 900 to 1400, and
  stays at 900 when line 1 is drawn.
\<close>

theorem results_paid_on_every_tick:
  "winningLine_srv (currentRound_srv srv_drawn) = Some 3 \<and>
   finalBets_srv (currentRound_srv srv_drawn) = [(1, [(''line3'', 100)], 100)] \<and>
   endTime_srv (currentRound_srv srv_drawn) = 1030000 \<and>
   nextRoundTime_srv (currentRound_srv srv_drawn) = 1033000 \<and>
   users_srv srv_drawn 1 = Some (''alice'', 900) \<and>
   results_due srv_drawn 1030000 \<and>
   currentRound_srv (gameTick srv_drawn 1030000 0 0 0) = currentRound_srv srv_drawn \<and>
   srv_paid = processRoundResults (gameTick srv_drawn 1030000 0 0 0) (\<lambda>_. NoFault) \<and>
   users_srv srv_paid 1 = Some (''alice'', 1100) \<and>
   results_due srv_paid 1031000 \<and>
   currentRound_srv (gameTick srv_paid 1031000 0 0 0) = currentRound_srv srv_drawn \<and>
   srv_paid_twice = processRoundResults (gameTick srv_paid 1031000 0 0 0) (\<lambda>_. NoFault) \<and>
   users_srv srv_paid_twice 1 = Some (''alice'', 1300) \<and>
   transactions_srv srv_paid_twice =
     [\<lparr> tx_user = 1, tx_amount = 100, tx_type = Bet, tx_descr = BetOn ''line3'' \<rparr>,
      \<lparr> tx_user = 1, tx_amount = 200, tx_type = Win, tx_descr = WonOn (Some 3) \<rparr>,
      \<lparr> tx_user = 1, tx_amount = 200, tx_type = Win, tx_descr = WonOn (Some 3) \<rparr>] \<and>
   winningLine_srv (currentRound_srv (gameTick srv_final 1027000 0 0 0)) = Some 1 \<and>
   users_srv srv_missed 1 = Some (''alice'', 900) \<and>
   transactions_srv srv_missed =
     [\<lparr> tx_user = 1, tx_amount = 100, tx_type = Bet, tx_descr = BetOn ''line3'' \<rparr>] \<and>
   users (settle demo_final 0 (1/2) 1030000 NoFault (\<lambda>_. NoFault)) 1 = Some (''alice'', 1400) \<and>
   users (settle demo_final 0 0 1030000 NoFault (\<lambda>_. NoFault)) 1 = Some (''alice'', 900)"
proof -
  have d: "winningLine_srv (currentRound_srv srv_drawn) = Some 3"
    "finalBets_srv (currentRound_srv srv_drawn) = [(1, [(''line3'', 100)], 100)]"
    "endTime_srv (currentRound_srv srv_drawn) = 1030000"
    "nextRoundTime_srv (currentRound_srv srv_drawn) = 1033000"
    "users_srv srv_drawn 1 = Some (''alice'', 900)"
    "\<not> isBettingOpen (currentRound_srv srv_drawn)"
    "transactions_srv srv_drawn =
       [\<lparr> tx_user = 1, tx_amount = 100, tx_type = Bet, tx_descr = BetOn ''line3'' \<rparr>]"
    by (simp_all add: srv_drawn_eval srv_final_eval)
  have three: "(3::nat) \<noteq> 0" by simp
  have t1: "gameTick srv_drawn 1030000 0 0 0 = emit_srv Broadcast (TimerUpdate False) srv_drawn"
    by (rule gameTick_idle[OF d(6) d(1) three]) (simp add: d(4))
  have o: "obj_get [(''line3'', 100)] ''line3'' = 100" by (simp add: obj_get_def)
  have e1: "finalBets_srv (currentRound_srv (emit_srv Broadcast (TimerUpdate False) srv_drawn)) =
      [(1, [(''line3'', 100)], 100)]"
    "winningLine_srv (currentRound_srv (emit_srv Broadcast (TimerUpdate False) srv_drawn)) = Some 3"
    "users_srv (emit_srv Broadcast (TimerUpdate False) srv_drawn) 1 = Some (''alice'', 900)"
    using d by (simp_all add: emit_srv_fields)
  have p1: "users_srv srv_paid 1 = Some (''alice'', 1100)"
    "transactions_srv srv_paid =
       [\<lparr> tx_user = 1, tx_amount = 100, tx_type = Bet, tx_descr = BetOn ''line3'' \<rparr>,
        \<lparr> tx_user = 1, tx_amount = 200, tx_type = Win, tx_descr = WonOn (Some 3) \<rparr>]"
    "currentRound_srv srv_paid = currentRound_srv srv_drawn"
    unfolding srv_paid_def t1
    using process_one[OF e1(1,2) o e1(3)] by (simp_all add: emit_srv_fields d)
  have t2: "gameTick srv_paid 1031000 0 0 0 = emit_srv Broadcast (TimerUpdate False) srv_paid"
    by (rule gameTick_idle[where w=3]) (simp_all add: p1(3) d)
  have e2: "finalBets_srv (currentRound_srv (emit_srv Broadcast (TimerUpdate False) srv_paid)) =
      [(1, [(''line3'', 100)], 100)]"
    "winningLine_srv (currentRound_srv (emit_srv Broadcast (TimerUpdate False) srv_paid)) = Some 3"
    "users_srv (emit_srv Broadcast (TimerUpdate False) srv_paid) 1 = Some (''alice'', 1100)"
    using p1 d by (simp_all add: emit_srv_fields)
  have p2: "users_srv srv_paid_twice 1 = Some (''alice'', 1300)"
    "transactions_srv srv_paid_twice =
       [\<lparr> tx_user = 1, tx_amount = 100, tx_type = Bet, tx_descr = BetOn ''line3'' \<rparr>,
        \<lparr> tx_user = 1, tx_amount = 200, tx_type = Win, tx_descr = WonOn (Some 3) \<rparr>,
        \<lparr> tx_user = 1, tx_amount = 200, tx_type = Win, tx_descr = WonOn (Some 3) \<rparr>]"
    unfolding srv_paid_twice_def t2
    using process_one[OF e2(1,2) o e2(3)] by (simp_all add: emit_srv_fields p1)
  have due: "results_due srv_drawn 1030000" "results_due srv_paid 1031000"
    by (simp_all add: results_due_def p1(3) d)
  have r: "currentRound_srv (gameTick srv_drawn 1030000 0 0 0) = currentRound_srv srv_drawn"
    "currentRound_srv (gameTick srv_paid 1031000 0 0 0) = currentRound_srv srv_drawn"
    by (simp_all add: t1 t2 emit_srv_fields p1(3))
  have m0: "gameTick srv_final 1027000 0 0 0 = srv_final
     \<lparr> currentRound_srv := (currentRound_srv srv_final)\<lparr>winningLine_srv := Some 1\<rparr>,
       emitted_srv := emitted_srv srv_final @
         [(Broadcast, AnnounceWinner 1 1000000), (Broadcast, TimerUpdate False)] \<rparr>"
    by (simp add: srv_final_eval gameTick_def announceWinner_def emit_srv_def draw_line_def Let_def)
  have mp: "\<not> isBettingOpen (currentRound_srv (gameTick srv_final 1027000 0 0 0))"
    "winningLine_srv (currentRound_srv (gameTick srv_final 1027000 0 0 0)) = Some 1"
    "nextRoundTime_srv (currentRound_srv (gameTick srv_final 1027000 0 0 0)) = 1033000"
    "finalBets_srv (currentRound_srv (gameTick srv_final 1027000 0 0 0)) =
       [(1, [(''line3'', 100)], 100)]"
    "users_srv (gameTick srv_final 1027000 0 0 0) 1 = Some (''alice'', 900)"
    "transactions_srv (gameTick srv_final 1027000 0 0 0) =
       [\<lparr> tx_user = 1, tx_amount = 100, tx_type = Bet, tx_descr = BetOn ''line3'' \<rparr>]"
    "userSessions_srv (gameTick srv_final 1027000 0 0 0) =
       [(''sockA'', \<lparr> userId = 1, username = ''alice'', balance = 900, pendingBets = [] \<rparr>)]"
    unfolding m0 by (simp_all add: srv_final_eval)
  have m1: "winningLine_srv (currentRound_srv (gameTick srv_final 1027000 0 0 0)) = Some 1"
    by (rule mp(2))
  have one: "(1::nat) \<noteq> 0" by simp
  have m2: "gameTick (gameTick srv_final 1027000 0 0 0) 1030000 0 0 0 =
      emit_srv Broadcast (TimerUpdate False) (gameTick srv_final 1027000 0 0 0)"
    by (rule gameTick_idle[OF mp(1) mp(2) one]) (simp add: mp(3))
  have m3: "users_srv srv_missed 1 = Some (''alice'', 900)"
    "transactions_srv srv_missed =
     [\<lparr> tx_user = 1, tx_amount = 100, tx_type = Bet, tx_descr = BetOn ''line3'' \<rparr>]"
    unfolding srv_missed_def m2
    using mp
    by (simp_all add: processRoundResults_def emit_srv_fields payout_one_srv_def
        Let_def winning_key_def line_key_def obj_get_def first_session_def)
  have v: "users (settle demo_final 0 (1/2) 1030000 NoFault (\<lambda>_. NoFault)) 1 = Some (''alice'', 1400)"
    "users (settle demo_final 0 0 1030000 NoFault (\<lambda>_. NoFault)) 1 = Some (''alice'', 900)"
    using settle_scenario_a by simp_all
  have q1: "srv_paid = processRoundResults (gameTick srv_drawn 1030000 0 0 0) (\<lambda>_. NoFault)"
    "srv_paid_twice = processRoundResults (gameTick srv_paid 1031000 0 0 0) (\<lambda>_. NoFault)"
    by (simp_all add: srv_paid_def srv_paid_twice_def)
  show ?thesis using d(1-5) due r q1 p1(1) p2 m1 m3 v by blast
qed

section \<open>Claim on the start of the successor round\<close>

text \<open>
  C7 is broken by the interval-driven engine: its \<^verbatim>\<open>createRound()\<close> takes \<^verbatim>\<open>Date.now()\<close>. In the
  example run the round started at 1000000, the tick at 1027000 drew the line, and the processing
  of the result ends at clock 1027350: the successor round starts at 1027350, not at
  1000000 + 30000. (The timer-driven engine does start each successor on the grid:
  \<open>successor_start_on_grid\<close>.)
\<close>

theorem successor_start_wall_clock:
  "startTime (cur demo_iv) = 1000000 \<and> winningLine (cur demo_iv) = Some 1 \<and>
   startTime (cur (finish_result_iv demo_iv 1027100 1027350 NoFault (\<lambda>_. NoFault))) = 1027350 \<and>
   startTime (cur demo_iv) + ROUND_DURATION_MS_iv = 1030000"
proof -
  have c: "startTime (cur demo_iv) = 1000000" "winningLine (cur demo_iv) = Some 1"
    by (simp_all add: demo_iv_eval cur_def)
  show ?thesis
    using c finish_result_iv_start[OF c(2), of 1027100 1027350 NoFault "\<lambda>_. NoFault"]
    by (simp add: ROUND_DURATION_MS_iv_def)
qed

section \<open>Claim on superseded rounds\<close>

lemma demo_next_eval: "demo_next =
   \<lparr> rounds = (\<lambda>_. \<lparr> startTime = 1000000, freezeTime = 1025000, resultTime = 1030000,
         endTime = 1040000, persistedRoundId = None, winningLine = None, bets = [], finalBets = [],
         timers = [], startAnnounced = False, freezeAnnounced = False \<rparr>)
       (0 := \<lparr> startTime = 1000000, freezeTime = 1025000, resultTime = 1030000,
         endTime = 1040000, persistedRoundId = Some 1, winningLine = Some 3, bets = [],
         finalBets = [], timers = [], startAnnounced = False, freezeAnnounced = False \<rparr>,
        1 := \<lparr> startTime = 1040000, freezeTime = 1065000, resultTime = 1070000,
         endTime = 1080000, persistedRoundId = None, winningLine = None, bets = [],
         finalBets = [], timers = [(TStart, 3), (TFreeze, 4), (TResult, 5)],
         startAnnounced = False, freezeAnnounced = False \<rparr>),
     currentRound = 1, allocated = 2, timer_seq = 6,
     pending = [(1040000, 3, 1, TStart), (1065000, 4, 1, TFreeze), (1070000, 5, 1, TResult)],
     userSessions = [(''sockA'', \<lparr> userId = 1, username = ''alice'', balance = 1000 \<rparr>)],
     users = demo_users, transactions = [], player_bets = [],
     game_rounds = [\<lparr> gr_start = 1000000, gr_end = Some 1040000, gr_winning_line = Some 3 \<rparr>],
     emitted = [(To ''sockA'', Authenticated 1 1000),
                (Broadcast, StartRound 1000000 1000000 25000 30000),
                (Broadcast, FreezeBets 1000000 1025000),
                (Broadcast, RoundResult 1 3 1030000)] \<rparr>"
  by (simp add: demo_next_def demo_frozen_eval fire_def emitRoundResultAndProcess_def settle_def
      rollover_def persistRoundResult_def clearRoundTimers_def createRound_def
      scheduleRoundTimers_def setTimeout_def emit_def result_round_id_def draw_line_def Let_def
      FREEZE_OFFSET_MS_def RESULT_OFFSET_MS_def ROUND_DURATION_MS_def)

lemma reachable_demo_next: "reachable demo_next"
  unfolding demo_next_def
  using reach_step[OF reachable_demo_frozen, of "Fire 1030000 (1/2) 1030050 NoFault (\<lambda>_. NoFault)"]
  by simp

lemma demo_iv_next_eval: "demo_iv_next =
   \<lparr> rounds = (\<lambda>_. createRound_iv 1000000)
       (0 := \<lparr> startTime = 1000000, freezeTime = 1025000, resultTime = 1027000,
         endTime = 1030000, persistedRoundId = Some 1, winningLine = Some 1, bets = [],
         finalBets = [], timers = [], startAnnounced = True, freezeAnnounced = True \<rparr>,
        1 := \<lparr> startTime = 1027350, freezeTime = 1052350, resultTime = 1054350,
         endTime = 1057350, persistedRoundId = None, winningLine = None, bets = [],
         finalBets = [], timers = [], startAnnounced = False, freezeAnnounced = False \<rparr>),
     currentRound = 1, allocated = 2, timer_seq = 0, pending = [], userSessions = [],
     users = demo_users, transactions = [], player_bets = [],
     game_rounds = [\<lparr> gr_start = 1000000, gr_end = Some 1030000, gr_winning_line = Some 1 \<rparr>],
     emitted = [(Broadcast, StartRound 1000000 1000000 25000 27000),
                (Broadcast, FreezeBets 1000000 1027000)] \<rparr>"
  by (simp add: demo_iv_next_def demo_iv_eval finish_result_iv_def persistRoundResult_def
      createRound_iv_def cur_def Let_def FREEZE_OFFSET_MS_iv_def RESULT_OFFSET_MS_iv_def
      ROUND_DURATION_MS_iv_def)

lemma reachable_demo_iv_next: "reachable_iv demo_iv_next"
  unfolding demo_iv_next_def
  using reach_step_iv[OF reachable_demo_iv, of "FinishResult 1027100 1027350 NoFault (\<lambda>_. NoFault)"]
  by simp

text \<open>
  C8, as stated, fails on the code: the callbacks of the scheduled transitions carry no check
  that the round they are given is still the current one. In the example run of the
  timer-driven engine the first round is superseded, with line 3 drawn and its result broadcast
  once. When the callback of its result timer is run once more, a second line is drawn for it
  (line 1, with the random number 0) and its result is broadcast again; when the callback of its
  freeze timer is run once more, \<^verbatim>\<open>freeze_bets\<close> is broadcast for it again.
\<close>

theorem replayed_transition_counterexample:
  "currentRound demo_next = 1 \<and> winningLine (rounds demo_next 0) = Some 3 \<and>
   result_count demo_next = 1 \<and> freeze_count demo_next = 1 \<and>
   demo_replay = emitRoundResultAndProcess demo_next 0 0 1030100 1030150 NoFault (\<lambda>_. NoFault) \<and>
   winningLine (rounds demo_replay 0) = Some 1 \<and>
   new_broadcasts demo_next demo_replay = [RoundResult 1 1 1030100] \<and>
   result_count demo_replay = 2 \<and>
   new_broadcasts demo_next (emitFreezeBets demo_next 0 1030100) = [FreezeBets 1000000 1030100] \<and>
   freeze_count (emitFreezeBets demo_next 0 1030100) = 2"
proof -
  have a: "currentRound demo_next = 1" "winningLine (rounds demo_next 0) = Some 3"
    "result_count demo_next = 1" "freeze_count demo_next = 1"
    "broadcasts demo_next = [StartRound 1000000 1000000 25000 30000, FreezeBets 1000000 1025000,
       RoundResult 1 3 1030000]"
    by (simp_all add: demo_next_eval result_count_def freeze_count_def broadcasts_def
        is_result_def is_freeze_def)
  have al: "allocated demo_next = 2" "persistedRoundId (rounds demo_next 0) = Some 1"
    by (simp_all add: demo_next_eval)
  have w: "winningLine (rounds demo_replay 0) = Some 1"
    by (simp add: demo_replay_def emitRoundResultAndProcess_def rollover_old(2) settle_fields al
        settle_rounds draw_line_def)
  have rid: "result_round_id (rounds (settle demo_next 0 0 1030100 NoFault (\<lambda>_. NoFault)) 0) = 1"
    by (simp add: settle_rounds result_round_id_def al)
  have "broadcasts demo_replay = broadcasts (settle demo_next 0 0 1030100 NoFault (\<lambda>_. NoFault))"
    by (simp add: demo_replay_def emitRoundResultAndProcess_def broadcasts_def rollover_fields)
  then have b: "broadcasts demo_replay = broadcasts demo_next @ [RoundResult 1 1 1030100]"
    by (simp add: settle_broadcasts rid draw_line_def)
  have f: "broadcasts (emitFreezeBets demo_next 0 1030100) =
      broadcasts demo_next @ [FreezeBets 1000000 1030100]"
    by (simp add: emitFreezeBets_def broadcasts_emit) (simp add: demo_next_eval)
  have p1: "new_broadcasts demo_next demo_replay = [RoundResult 1 1 1030100] \<and>
   result_count demo_replay = 2 \<and>
   new_broadcasts demo_next (emitFreezeBets demo_next 0 1030100) = [FreezeBets 1000000 1030100] \<and>
   freeze_count (emitFreezeBets demo_next 0 1030100) = 2"
    by (simp add: new_broadcasts_def result_count_def freeze_count_def b f a(5) is_result_def
        is_freeze_def)
  have p2: "demo_replay = emitRoundResultAndProcess demo_next 0 0 1030100 1030150 NoFault (\<lambda>_. NoFault)"
    by (simp add: demo_replay_def)
  show ?thesis using a(1,2,3,4) w p1 p2 by blast
qed

text \<open>
  C8, amended. No scheduled transition fires for a superseded round. In every run of the
  timer-driven engine (state \<open>s\<close>, next event \<open>e\<close>) every armed timeout targets the current
  round: the timers of a round are all gone when its successor is created. Accordingly a step
  never changes the winning line of a superseded round; every broadcast of a step is about the
  round that is current when the step begins, whose start time (its identifier) is later than
  that of every superseded round; and the number of \<^verbatim>\<open>freeze_bets\<close> broadcasts is the number
  of rounds whose freeze timer has fired, the number of \<^verbatim>\<open>round_result\<close> broadcasts the number
  of superseded rounds: none is repeated. In every run of the interval-driven engine (state
  \<open>t\<close>, next event \<open>e'\<close>), whose ticks act on the current round behind its flags: the number
  of \<^verbatim>\<open>freeze_bets\<close> broadcasts is the number of rounds for which the freeze was announced; a
  step never changes the winning line of a superseded round nor a winning line of the current
  round; and every broadcast of a step is about the current round.
\<close>

theorem stale_transition_never_fires:
  assumes "reachable s" "wf_event e" "reachable_iv t" "wf_event_iv e'"
  shows "(\<forall>(due, i, g, k)\<in>set (pending s). g = currentRound s) \<and>
     (\<forall>g<currentRound s. winningLine (rounds (step s e) g) = winningLine (rounds s g)) \<and>
     (\<forall>m\<in>set (new_broadcasts s (step s e)).
        about_round (cur s) (rounds (step s e) (currentRound s)) m) \<and>
     (\<forall>g<currentRound s. startTime (rounds s g) < startTime (cur s)) \<and>
     freeze_count s = currentRound s + (if (currentRound s, TFreeze) \<in> set (targets s) then 0 else 1) \<and>
     result_count s = currentRound s \<and>
     freeze_count t = currentRound t + (if freezeAnnounced (cur t) then 1 else 0) \<and>
     (\<forall>g<currentRound t. winningLine (rounds (step_iv t e') g) = winningLine (rounds t g)) \<and>
     (\<forall>w. winningLine (cur t) = Some w \<longrightarrow>
        winningLine (rounds (step_iv t e') (currentRound t)) = Some w) \<and>
     (\<forall>m\<in>set (new_broadcasts t (step_iv t e')).
        about_round (cur t) (rounds (step_iv t e') (currentRound t)) m)"
proof -
  have i: "inv s" using assms(1) by (rule reachable_inv)
  have a: "\<forall>(due, i, g, k)\<in>set (pending s). g = currentRound s"
    using inv_pending_current[OF i] by auto
  have b: "\<forall>g<currentRound s. winningLine (rounds (step s e) g) = winningLine (rounds s g)"
    using step_frame[OF i] by simp
  have c: "\<forall>g<currentRound s. startTime (rounds s g) < startTime (cur s)"
    using inv_start_increasing[OF i] by simp
  have d: "freeze_count s = currentRound s + (if (currentRound s, TFreeze) \<in> set (targets s) then 0 else 1)"
    "result_count s = currentRound s"
    using i by (simp_all add: inv_def Let_def)
  have j: "inv_iv t" using assms(3) by (rule reachable_iv_inv)
  have a': "freeze_count t = currentRound t + (if freezeAnnounced (cur t) then 1 else 0)"
    using j by (simp add: inv_iv_def Let_def)
  have b': "\<forall>g<currentRound t. winningLine (rounds (step_iv t e') g) = winningLine (rounds t g)"
    using step_iv_frame[OF j] by simp
  have k': "\<forall>w. winningLine (cur t) = Some w \<longrightarrow>
        winningLine (rounds (step_iv t e') (currentRound t)) = Some w"
    using step_iv_keep[OF j] by simp
  show ?thesis
    using a b c d step_broadcasts[OF i] a' b' k' step_iv_broadcasts[of t e'] by blast
qed

text \<open>The theorem at the example runs, each with one superseded round. Timer-driven engine,
  next step the firing of the start timer of the second round: the armed timeouts are those of
  the second round, the step broadcasts the start of the second round only and leaves the line
  of the first round. Interval-driven engine, next step the tick that announces the start of
  the second round.\<close>

theorem stale_transition_never_fires_witness:
  "reachable demo_next \<and> wf_event (Fire 1040000 0 1040000 NoFault (\<lambda>_. NoFault)) \<and>
   currentRound demo_next = 1 \<and>
   pending demo_next = [(1040000, 3, 1, TStart), (1065000, 4, 1, TFreeze), (1070000, 5, 1, TResult)] \<and>
   winningLine (rounds demo_next 0) = Some 3 \<and>
   winningLine (rounds (step demo_next (Fire 1040000 0 1040000 NoFault (\<lambda>_. NoFault))) 0) = Some 3 \<and>
   new_broadcasts demo_next (step demo_next (Fire 1040000 0 1040000 NoFault (\<lambda>_. NoFault))) =
     [StartRound 1040000 1040000 25000 30000] \<and>
   about_round (cur demo_next)
     (rounds (step demo_next (Fire 1040000 0 1040000 NoFault (\<lambda>_. NoFault))) 1)
     (StartRound 1040000 1040000 25000 30000) \<and>
   startTime (rounds demo_next 0) = 1000000 \<and> startTime (cur demo_next) = 1040000 \<and>
   freeze_count demo_next = 1 \<and> result_count demo_next = 1 \<and>
   reachable_iv demo_iv_next \<and> wf_event_iv (Tick 1027500 (1/2) NoFault) \<and>
   currentRound demo_iv_next = 1 \<and> freeze_count demo_iv_next = 1 \<and>
   winningLine (rounds demo_iv_next 0) = Some 1 \<and>
   winningLine (rounds (step_iv demo_iv_next (Tick 1027500 (1/2) NoFault)) 0) = Some 1 \<and>
   new_broadcasts demo_iv_next (step_iv demo_iv_next (Tick 1027500 (1/2) NoFault)) =
     [StartRound 1027350 1027500 24850 26850] \<and>
   about_round (cur demo_iv_next)
     (rounds (step_iv demo_iv_next (Tick 1027500 (1/2) NoFault)) 1)
     (StartRound 1027350 1027500 24850 26850)"
proof -
  have w: "wf_event (Fire 1040000 0 1040000 NoFault (\<lambda>_. NoFault))" by simp
  have w': "wf_event_iv (Tick 1027500 (1/2) NoFault)" by simp
  have c: "currentRound demo_next = 1"
    "pending demo_next = [(1040000, 3, 1, TStart), (1065000, 4, 1, TFreeze), (1070000, 5, 1, TResult)]"
    "winningLine (rounds demo_next 0) = Some 3" "startTime (rounds demo_next 0) = 1000000"
    "startTime (cur demo_next) = 1040000"
    by (simp_all add: demo_next_eval cur_def)
  have c6: "freezeTime (cur demo_next) = 1065000" "resultTime (cur demo_next) = 1070000"
    by (simp_all add: demo_next_eval cur_def)
  have n: "new_broadcasts demo_next (step demo_next (Fire 1040000 0 1040000 NoFault (\<lambda>_. NoFault))) =
     [StartRound 1040000 1040000 25000 30000]"
    using fire_start(4)[OF reachable_inv[OF reachable_demo_next] c(2), of 1040000 0 1040000 NoFault
        "\<lambda>_. NoFault"] c(5) c6
    by simp
  have c': "currentRound demo_iv_next = 1" "winningLine (rounds demo_iv_next 0) = Some 1"
    "startAnnounced (cur demo_iv_next) = False" "startTime (cur demo_iv_next) = 1027350"
    "freezeTime (cur demo_iv_next) = 1052350" "resultTime (cur demo_iv_next) = 1054350"
    "winningLine (cur demo_iv_next) = None" "freezeAnnounced (cur demo_iv_next) = False"
    by (simp_all add: demo_iv_next_eval cur_def)
  have n': "new_broadcasts demo_iv_next (step_iv demo_iv_next (Tick 1027500 (1/2) NoFault)) =
     [StartRound 1027350 1027500 24850 26850]"
    by (simp add: new_broadcasts_def tick_iv_props(5) c')
  note th = stale_transition_never_fires[OF reachable_demo_next w reachable_demo_iv_next w']
  have k: "(0::nat) < 1" by simp
  have v1: "winningLine (rounds (step demo_next (Fire 1040000 0 1040000 NoFault (\<lambda>_. NoFault))) 0) = Some 3"
    using th[THEN conjunct2, THEN conjunct1] c(1,3) by simp
  have v2: "about_round (cur demo_next)
     (rounds (step demo_next (Fire 1040000 0 1040000 NoFault (\<lambda>_. NoFault))) 1)
     (StartRound 1040000 1040000 25000 30000)"
    using th[THEN conjunct2, THEN conjunct2, THEN conjunct1] n c(1) by simp
  have v3: "freeze_count demo_next = 1 \<and> result_count demo_next = 1"
    using th c(1,2) by (simp add: targets_def)
  have v4: "freeze_count demo_iv_next = 1"
    using th c'(1,8) by simp
  have v5: "winningLine (rounds (step_iv demo_iv_next (Tick 1027500 (1/2) NoFault)) 0) = Some 1"
    using th c'(1,2) by simp
  have v6: "about_round (cur demo_iv_next)
     (rounds (step_iv demo_iv_next (Tick 1027500 (1/2) NoFault)) 1)
     (StartRound 1027350 1027500 24850 26850)"
    using th n' c'(1) by simp
  show ?thesis
    using reachable_demo_next w c n v1 v2 v3 reachable_demo_iv_next w' c'(1,2) v4 v5 v6 n'
    by simp
qed

section \<open>Claim on the targeted notification\<close>

lemma first_key_find: "first_key ss uid = map_option fst (first_session ss uid)"
  by (induction ss) (auto simp: first_session_def)

lemma first_key_shape:
  assumes "session_users ss = session_users ss'"
  shows "first_key ss uid = first_key ss' uid"
  using assms by (simp add: first_key_find first_session_shape)

lemma first_key_session:
  assumes "first_key ss uid = Some k"
  shows "\<exists>se. first_session ss uid = Some (k, se)"
  using assms by (cases "first_session ss uid") (auto simp: first_key_find)

lemma first_key_none:
  assumes "first_key ss uid = None"
  shows "first_session ss uid = None"
  using assms by (simp add: first_key_find)

lemma recipients_snoc:
  "recipients ss (es @ [e]) =
     recipients ss es @ (case first_key ss (s_userId (snd e)) of None \<Rightarrow> [] | Some k \<Rightarrow> [k])"
  by (simp add: recipients_def map_filter_def split: option.splits)

text \<open>One pass of the loop over the finalized entries, for an entry with a user and no failing
  database call.\<close>

lemma payout_one_silent:
  assumes "flts (fst e) = NoFault" "s_userId (snd e) \<noteq> 0"
    "first_session (userSessions s) (s_userId (snd e)) = None"
  shows "emitted (payout_one g w now flts s e) = emitted s"
    and "userSessions (payout_one g w now flts s e) = userSessions s"
  using assms
  by (simp_all add: payout_one_def Let_def notify_payee_def credit_win_fields)

lemma payout_one_notifies:
  assumes "flts (fst e) = NoFault" "s_userId (snd e) \<noteq> 0"
    "first_session (userSessions s) (s_userId (snd e)) = Some (k, se)"
  shows "\<exists>nb. emitted (payout_one g w now flts s e) =
           emitted s @ [(To k, RoundResultTo (result_round_id (rounds s g)) w
              (win_amount (snd e) w) nb now)] \<and>
         userSessions (payout_one g w now flts s e) =
           AList.update k (se\<lparr>balance := nb\<rparr>) (userSessions s) \<and>
         (\<forall>n b. users (payout_one g w now flts s e) (s_userId (snd e)) = Some (n, b) \<longrightarrow> nb = b)"
proof -
  define s1 where "s1 = credit_win s (s_userId (snd e)) w (persistedRoundId (rounds s g))
      (win_amount (snd e) w) NoFault"
  define nb where "nb = (case users s1 (s_userId (snd e)) of None \<Rightarrow> balance se | Some (n, b) \<Rightarrow> b)"
  have p: "payout_one g w now flts s e =
      (emit (To k) (RoundResultTo (result_round_id (rounds s g)) w (win_amount (snd e) w) nb now) s1)
        \<lparr>userSessions := AList.update k (se\<lparr>balance := nb\<rparr>) (userSessions s)\<rparr>"
    using assms
    by (simp add: payout_one_def Let_def notify_payee_def credit_win_fields s1_def[symmetric]
        nb_def[symmetric])
  have "emitted (payout_one g w now flts s e) =
           emitted s @ [(To k, RoundResultTo (result_round_id (rounds s g)) w
              (win_amount (snd e) w) nb now)]"
    by (simp add: p emit_fields s1_def credit_win_fields)
  moreover have "userSessions (payout_one g w now flts s e) =
           AList.update k (se\<lparr>balance := nb\<rparr>) (userSessions s)"
    by (simp add: p)
  moreover have "\<forall>n b. users (payout_one g w now flts s e) (s_userId (snd e)) = Some (n, b) \<longrightarrow> nb = b"
    by (simp add: p emit_fields nb_def)
  ultimately show ?thesis by blast
qed

lemma payout_one_other_user:
  assumes "uid' \<noteq> s_userId (snd e)"
  shows "users (payout_one g w now flts s e) uid' = users s uid'"
  using assms
  by (simp add: payout_one_def Let_def notify_payee_fields credit_win_def add_balance_def
      split: option.splits)

text \<open>The whole loop.\<close>

lemma payout_loop_exact:
  assumes "distinct (map fst (userSessions s))"
    "\<forall>e\<in>set es. flts (fst e) = NoFault \<and> s_userId (snd e) \<noteq> 0"
  shows "session_users (userSessions (foldl (payout_one g w now flts) s es)) =
           session_users (userSessions s) \<and>
         distinct (map fst (userSessions (foldl (payout_one g w now flts) s es))) \<and>
         map fst (emitted (foldl (payout_one g w now flts) s es)) =
           map fst (emitted s) @ map To (recipients (userSessions s) es) \<and>
         (\<forall>e\<in>set es. \<forall>k. first_key (userSessions s) (s_userId (snd e)) = Some k \<longrightarrow>
            (\<exists>se. map_of (userSessions (foldl (payout_one g w now flts) s es)) k = Some se \<and>
               userId se = s_userId (snd e) \<and>
               (\<forall>n b. users (foldl (payout_one g w now flts) s es) (s_userId (snd e)) = Some (n, b)
                  \<longrightarrow> balance se = b))) \<and>
         (\<forall>k. (\<forall>e\<in>set es. first_key (userSessions s) (s_userId (snd e)) \<noteq> Some k) \<longrightarrow>
            map_of (userSessions (foldl (payout_one g w now flts) s es)) k =
              map_of (userSessions s) k)"
  using assms(2)
proof (induction es rule: rev_induct)
  case Nil
  then show ?case using assms(1) by (simp add: recipients_def map_filter_def)
next
  case (snoc e es)
  let ?F = "payout_one g w now flts"
  let ?t = "foldl ?F s es"
  let ?t' = "?F ?t e"
  let ?uid = "s_userId (snd e)"
  have pre: "\<forall>e\<in>set es. flts (fst e) = NoFault \<and> s_userId (snd e) \<noteq> 0"
    and he: "flts (fst e) = NoFault" "?uid \<noteq> 0"
    using snoc.prems by simp_all
  note ih = snoc.IH[OF pre]
  have i1: "session_users (userSessions ?t) = session_users (userSessions s)"
    and i2: "distinct (map fst (userSessions ?t))"
    and i3: "map fst (emitted ?t) = map fst (emitted s) @ map To (recipients (userSessions s) es)"
    and i4: "\<forall>e\<in>set es. \<forall>k. first_key (userSessions s) (s_userId (snd e)) = Some k \<longrightarrow>
            (\<exists>se. map_of (userSessions ?t) k = Some se \<and> userId se = s_userId (snd e) \<and>
               (\<forall>n b. users ?t (s_userId (snd e)) = Some (n, b) \<longrightarrow> balance se = b))"
    and i5: "\<forall>k. (\<forall>e\<in>set es. first_key (userSessions s) (s_userId (snd e)) \<noteq> Some k) \<longrightarrow>
            map_of (userSessions ?t) k = map_of (userSessions s) k"
    using ih by blast+
  have fk: "first_key (userSessions ?t) ?uid = first_key (userSessions s) ?uid"
    by (rule first_key_shape[OF i1])
  have step: "foldl ?F s (es @ [e]) = ?t'" by simp
  show ?case
  proof (cases "first_key (userSessions s) ?uid")
    case None
    have fs: "first_session (userSessions ?t) ?uid = None"
      using None fk by (simp add: first_key_none)
    have em: "emitted ?t' = emitted ?t" and ss: "userSessions ?t' = userSessions ?t"
      using payout_one_silent[where flts=flts and e=e and s="?t" and g=g and w=w and now=now, OF he fs]
      by simp_all
    have r: "recipients (userSessions s) (es @ [e]) = recipients (userSessions s) es"
      using None by (simp add: recipients_snoc)
    have j4: "\<forall>e'\<in>set (es @ [e]). \<forall>k. first_key (userSessions s) (s_userId (snd e')) = Some k \<longrightarrow>
            (\<exists>se. map_of (userSessions ?t') k = Some se \<and> userId se = s_userId (snd e') \<and>
               (\<forall>n b. users ?t' (s_userId (snd e')) = Some (n, b) \<longrightarrow> balance se = b))"
    proof (intro ballI allI impI)
      fix e' k assume a: "e' \<in> set (es @ [e])"
        and b: "first_key (userSessions s) (s_userId (snd e')) = Some k"
      have ne: "s_userId (snd e') \<noteq> ?uid" using None b by auto
      then have "e' \<in> set es" using a by auto
      then obtain se where se: "map_of (userSessions ?t) k = Some se" "userId se = s_userId (snd e')"
        "\<forall>n b. users ?t (s_userId (snd e')) = Some (n, b) \<longrightarrow> balance se = b"
        using i4 b by blast
      have "users ?t' (s_userId (snd e')) = users ?t (s_userId (snd e'))"
        by (rule payout_one_other_user[OF ne])
      then show "\<exists>se. map_of (userSessions ?t') k = Some se \<and> userId se = s_userId (snd e') \<and>
               (\<forall>n b. users ?t' (s_userId (snd e')) = Some (n, b) \<longrightarrow> balance se = b)"
        using se by (simp add: ss)
    qed
    have j5: "\<forall>k. (\<forall>e'\<in>set (es @ [e]). first_key (userSessions s) (s_userId (snd e')) \<noteq> Some k) \<longrightarrow>
            map_of (userSessions ?t') k = map_of (userSessions s) k"
      using i5 by (simp add: ss)
    show ?thesis
      unfolding step using i1 i2 i3 j4 j5 by (simp add: ss em r)
  next
    case (Some k)
    obtain se where fs: "first_session (userSessions ?t) ?uid = Some (k, se)"
      using first_key_session[of "userSessions ?t" ?uid k] Some fk by auto
    have ms: "map_of (userSessions ?t) k = Some se" "userId se = ?uid"
      using first_session_Some[OF fs i2] by simp_all
    obtain nb where nb: "emitted ?t' = emitted ?t @
          [(To k, RoundResultTo (result_round_id (rounds ?t g)) w (win_amount (snd e) w) nb now)]"
      "userSessions ?t' = AList.update k (se\<lparr>balance := nb\<rparr>) (userSessions ?t)"
      "\<forall>n b. users ?t' ?uid = Some (n, b) \<longrightarrow> nb = b"
      using payout_one_notifies[where flts=flts and e=e and s="?t" and g=g and w=w and now=now
          and k=k and se=se, OF he fs]
      by blast
    have j1: "session_users (userSessions ?t') = session_users (userSessions s)"
      using session_users_update[OF ms(1), of "se\<lparr>balance := nb\<rparr>"] i1 by (simp add: nb(2))
    have j2: "distinct (map fst (userSessions ?t'))"
      using i2 by (simp add: nb(2) distinct_update)
    have r: "recipients (userSessions s) (es @ [e]) = recipients (userSessions s) es @ [k]"
      using Some by (simp add: recipients_snoc)
    have j3: "map fst (emitted ?t') =
        map fst (emitted s) @ map To (recipients (userSessions s) (es @ [e]))"
      using i3 by (simp add: nb(1) r)
    have j4: "\<forall>e'\<in>set (es @ [e]). \<forall>k'. first_key (userSessions s) (s_userId (snd e')) = Some k' \<longrightarrow>
            (\<exists>se'. map_of (userSessions ?t') k' = Some se' \<and> userId se' = s_userId (snd e') \<and>
               (\<forall>n b. users ?t' (s_userId (snd e')) = Some (n, b) \<longrightarrow> balance se' = b))"
    proof (intro ballI allI impI)
      fix e' k' assume a: "e' \<in> set (es @ [e])"
        and b: "first_key (userSessions s) (s_userId (snd e')) = Some k'"
      show "\<exists>se'. map_of (userSessions ?t') k' = Some se' \<and> userId se' = s_userId (snd e') \<and>
               (\<forall>n b. users ?t' (s_userId (snd e')) = Some (n, b) \<longrightarrow> balance se' = b)"
      proof (cases "s_userId (snd e') = ?uid")
        case True
        then have "k' = k" using b Some by simp
        then show ?thesis
          using nb(3) ms(2) True by (simp add: nb(2) update_conv')
      next
        case False
        then have "e' \<in> set es" using a by auto
        then obtain se' where se': "map_of (userSessions ?t) k' = Some se'"
          "userId se' = s_userId (snd e')"
          "\<forall>n b. users ?t (s_userId (snd e')) = Some (n, b) \<longrightarrow> balance se' = b"
          using i4 b by blast
        have "k' \<noteq> k" using se'(1,2) ms False by auto
        moreover have "users ?t' (s_userId (snd e')) = users ?t (s_userId (snd e'))"
          by (rule payout_one_other_user[OF False])
        ultimately show ?thesis using se' by (simp add: nb(2) update_conv')
      qed
    qed
    have j5: "\<forall>k'. (\<forall>e'\<in>set (es @ [e]). first_key (userSessions s) (s_userId (snd e')) \<noteq> Some k') \<longrightarrow>
            map_of (userSessions ?t') k' = map_of (userSessions s) k'"
    proof (intro allI impI)
      fix k' assume a: "\<forall>e'\<in>set (es @ [e]). first_key (userSessions s) (s_userId (snd e')) \<noteq> Some k'"
      then have "k' \<noteq> k" using Some by auto
      moreover have "map_of (userSessions ?t) k' = map_of (userSessions s) k'"
        using i5 a by simp
      ultimately show "map_of (userSessions ?t') k' = map_of (userSessions s) k'"
        by (simp add: nb(2) update_conv')
    qed
    show ?thesis
      unfolding step using j1 j2 j3 j4 j5 by blast
  qed
qed

text \<open>The same for \<^verbatim>\<open>processRoundResults()\<close> of \<^verbatim>\<open>src/server.js\<close>, which sends a message for
  an entry that wins nothing too, and refreshes the cached balance only for one that wins.\<close>

lemma recipients_srv_snoc:
  "recipients_srv ss (es @ [e]) =
     recipients_srv ss es @ (case first_key ss (fst e) of None \<Rightarrow> [] | Some k \<Rightarrow> [k])"
  by (simp add: recipients_srv_def map_filter_def split: option.splits)

lemma payout_one_srv_accounts:
  "(users_srv (payout_one_srv flts s e) uid = None) = (users_srv s uid = None)"
  by (simp add: payout_one_srv_def Let_def emit_srv_fields add_balance_def
      split: option.splits prod.splits)

lemma payout_one_srv_other_user:
  assumes "uid' \<noteq> fst e"
  shows "users_srv (payout_one_srv flts s e) uid' = users_srv s uid'"
  using assms
  by (simp add: payout_one_srv_def Let_def emit_srv_fields add_balance_def
      split: option.splits prod.splits)

lemma payout_one_srv_silent:
  assumes "first_session (userSessions_srv s) (fst e) = None"
  shows "emitted_srv (payout_one_srv flts s e) = emitted_srv s"
    and "userSessions_srv (payout_one_srv flts s e) = userSessions_srv s"
  using assms by (simp_all add: payout_one_srv_def Let_def)

lemma payout_one_srv_lose:
  assumes "\<not> 0 < obj_get (fst (snd e)) (winning_key (winningLine_srv (currentRound_srv s)))"
    "first_session (userSessions_srv s) (fst e) = Some (k, se)"
  shows "emitted_srv (payout_one_srv flts s e) = emitted_srv s @
           [(To k, RoundEnd (id_srv (currentRound_srv s)) (winningLine_srv (currentRound_srv s)) 0
              (balance se))]"
    and "userSessions_srv (payout_one_srv flts s e) = userSessions_srv s"
    and "users_srv (payout_one_srv flts s e) = users_srv s"
  using assms by (simp_all add: payout_one_srv_def Let_def emit_srv_fields)

lemma payout_one_srv_win:
  assumes "flts (fst e) = NoFault" "users_srv s (fst e) \<noteq> None"
    "0 < obj_get (fst (snd e)) (winning_key (winningLine_srv (currentRound_srv s)))"
    "first_session (userSessions_srv s) (fst e) = Some (k, se)"
  shows "\<exists>nb. emitted_srv (payout_one_srv flts s e) = emitted_srv s @
           [(To k, RoundEnd (id_srv (currentRound_srv s)) (winningLine_srv (currentRound_srv s))
              (obj_get (fst (snd e)) (winning_key (winningLine_srv (currentRound_srv s))) * 2) nb)] \<and>
         userSessions_srv (payout_one_srv flts s e) =
           AList.update k (se\<lparr>balance := nb\<rparr>) (userSessions_srv s) \<and>
         (\<forall>n b. users_srv (payout_one_srv flts s e) (fst e) = Some (n, b) \<longrightarrow> nb = b)"
proof -
  obtain n b where u: "users_srv s (fst e) = Some (n, b)" using assms(2) by auto
  let ?x = "obj_get (fst (snd e)) (winning_key (winningLine_srv (currentRound_srv s)))"
  have a: "add_balance (fst e) (?x * 2) (users_srv s) (fst e) = Some (n, b + ?x * 2)"
    by (simp add: add_balance_def u)
  have "emitted_srv (payout_one_srv flts s e) = emitted_srv s @
           [(To k, RoundEnd (id_srv (currentRound_srv s)) (winningLine_srv (currentRound_srv s))
              (?x * 2) (b + ?x * 2))]"
    and "userSessions_srv (payout_one_srv flts s e) =
           AList.update k (se\<lparr>balance := b + ?x * 2\<rparr>) (userSessions_srv s)"
    and "users_srv (payout_one_srv flts s e) (fst e) = Some (n, b + ?x * 2)"
    using assms(1,3,4) a by (simp_all add: payout_one_srv_def Let_def emit_srv_fields)
  then show ?thesis by simp
qed

lemma payout_loop_srv_exact:
  assumes "distinct (map fst (userSessions_srv s))"
    "\<forall>e\<in>set es. flts (fst e) = NoFault \<and> users_srv s (fst e) \<noteq> None"
  shows "currentRound_srv (foldl (payout_one_srv flts) s es) = currentRound_srv s \<and>
         (\<forall>uid. (users_srv (foldl (payout_one_srv flts) s es) uid = None) = (users_srv s uid = None)) \<and>
         session_users (userSessions_srv (foldl (payout_one_srv flts) s es)) =
           session_users (userSessions_srv s) \<and>
         distinct (map fst (userSessions_srv (foldl (payout_one_srv flts) s es))) \<and>
         map fst (emitted_srv (foldl (payout_one_srv flts) s es)) =
           map fst (emitted_srv s) @ map To (recipients_srv (userSessions_srv s) es) \<and>
         (\<forall>e\<in>set es. \<forall>k. first_key (userSessions_srv s) (fst e) = Some k \<longrightarrow>
            (\<exists>se. map_of (userSessions_srv (foldl (payout_one_srv flts) s es)) k = Some se \<and>
               userId se = fst e \<and>
               (0 < obj_get (fst (snd e)) (winning_key (winningLine_srv (currentRound_srv s))) \<longrightarrow>
                  (\<forall>n b. users_srv (foldl (payout_one_srv flts) s es) (fst e) = Some (n, b)
                     \<longrightarrow> balance se = b)))) \<and>
         (\<forall>k. (\<forall>e\<in>set es. first_key (userSessions_srv s) (fst e) \<noteq> Some k) \<longrightarrow>
            map_of (userSessions_srv (foldl (payout_one_srv flts) s es)) k =
              map_of (userSessions_srv s) k)"
  using assms(2)
proof (induction es rule: rev_induct)
  case Nil
  then show ?case using assms(1) by (simp add: recipients_srv_def map_filter_def)
next
  case (snoc e es)
  let ?F = "payout_one_srv flts"
  let ?t = "foldl ?F s es"
  let ?t' = "?F ?t e"
  let ?uid = "fst e"
  let ?w = "winningLine_srv (currentRound_srv s)"
  have pre: "\<forall>e\<in>set es. flts (fst e) = NoFault \<and> users_srv s (fst e) \<noteq> None"
    and he: "flts (fst e) = NoFault" "users_srv s ?uid \<noteq> None"
    using snoc.prems by simp_all
  note ih = snoc.IH[OF pre]
  have i0: "currentRound_srv ?t = currentRound_srv s"
    and ia: "\<forall>uid. (users_srv ?t uid = None) = (users_srv s uid = None)"
    and i1: "session_users (userSessions_srv ?t) = session_users (userSessions_srv s)"
    and i2: "distinct (map fst (userSessions_srv ?t))"
    and i3: "map fst (emitted_srv ?t) =
        map fst (emitted_srv s) @ map To (recipients_srv (userSessions_srv s) es)"
    and i4: "\<forall>e\<in>set es. \<forall>k. first_key (userSessions_srv s) (fst e) = Some k \<longrightarrow>
            (\<exists>se. map_of (userSessions_srv ?t) k = Some se \<and> userId se = fst e \<and>
               (0 < obj_get (fst (snd e)) (winning_key ?w) \<longrightarrow>
                  (\<forall>n b. users_srv ?t (fst e) = Some (n, b) \<longrightarrow> balance se = b)))"
    and i5: "\<forall>k. (\<forall>e\<in>set es. first_key (userSessions_srv s) (fst e) \<noteq> Some k) \<longrightarrow>
            map_of (userSessions_srv ?t) k = map_of (userSessions_srv s) k"
    using ih by blast+
  have fk: "first_key (userSessions_srv ?t) ?uid = first_key (userSessions_srv s) ?uid"
    by (rule first_key_shape[OF i1])
  have step: "foldl ?F s (es @ [e]) = ?t'" by simp
  have j0: "currentRound_srv ?t' = currentRound_srv s"
    by (simp add: payout_one_srv_round i0)
  have ja: "\<forall>uid. (users_srv ?t' uid = None) = (users_srv s uid = None)"
    using ia by (simp add: payout_one_srv_accounts)
  have hu: "users_srv ?t ?uid \<noteq> None" using he(2) ia by simp
  show ?case
  proof (cases "first_key (userSessions_srv s) ?uid")
    case None
    have fs: "first_session (userSessions_srv ?t) ?uid = None"
      using None fk by (simp add: first_key_none)
    have em: "emitted_srv ?t' = emitted_srv ?t" and ss: "userSessions_srv ?t' = userSessions_srv ?t"
      using payout_one_srv_silent[where s="?t" and e=e and flts=flts, OF fs] by simp_all
    have r: "recipients_srv (userSessions_srv s) (es @ [e]) = recipients_srv (userSessions_srv s) es"
      using None by (simp add: recipients_srv_snoc)
    have j4: "\<forall>e'\<in>set (es @ [e]). \<forall>k. first_key (userSessions_srv s) (fst e') = Some k \<longrightarrow>
            (\<exists>se. map_of (userSessions_srv ?t') k = Some se \<and> userId se = fst e' \<and>
               (0 < obj_get (fst (snd e')) (winning_key ?w) \<longrightarrow>
                  (\<forall>n b. users_srv ?t' (fst e') = Some (n, b) \<longrightarrow> balance se = b)))"
    proof (intro ballI allI impI)
      fix e' k assume a: "e' \<in> set (es @ [e])"
        and b: "first_key (userSessions_srv s) (fst e') = Some k"
      have ne: "fst e' \<noteq> ?uid" using None b by auto
      then have "e' \<in> set es" using a by auto
      then obtain se where se: "map_of (userSessions_srv ?t) k = Some se" "userId se = fst e'"
        "0 < obj_get (fst (snd e')) (winning_key ?w) \<longrightarrow>
           (\<forall>n b. users_srv ?t (fst e') = Some (n, b) \<longrightarrow> balance se = b)"
        using i4 b by blast
      have "users_srv ?t' (fst e') = users_srv ?t (fst e')"
        by (rule payout_one_srv_other_user[OF ne])
      then show "\<exists>se. map_of (userSessions_srv ?t') k = Some se \<and> userId se = fst e' \<and>
               (0 < obj_get (fst (snd e')) (winning_key ?w) \<longrightarrow>
                  (\<forall>n b. users_srv ?t' (fst e') = Some (n, b) \<longrightarrow> balance se = b))"
        using se by (simp add: ss)
    qed
    have j5: "\<forall>k. (\<forall>e'\<in>set (es @ [e]). first_key (userSessions_srv s) (fst e') \<noteq> Some k) \<longrightarrow>
            map_of (userSessions_srv ?t') k = map_of (userSessions_srv s) k"
      using i5 by (simp add: ss)
    show ?thesis
      unfolding step using j0 ja i1 i2 i3 j4 j5 by (simp add: ss em r)
  next
    case (Some k)
    obtain se where fs: "first_session (userSessions_srv ?t) ?uid = Some (k, se)"
      using first_key_session[of "userSessions_srv ?t" ?uid k] Some fk by auto
    have ms: "map_of (userSessions_srv ?t) k = Some se" "userId se = ?uid"
      using first_session_Some[OF fs i2] by simp_all
    have r: "recipients_srv (userSessions_srv s) (es @ [e]) =
        recipients_srv (userSessions_srv s) es @ [k]"
      using Some by (simp add: recipients_srv_snoc)
    show ?thesis
    proof (cases "0 < obj_get (fst (snd e)) (winning_key ?w)")
      case False
      have nw: "\<not> 0 < obj_get (fst (snd e)) (winning_key (winningLine_srv (currentRound_srv ?t)))"
        using False by (simp add: i0)
      have em: "map fst (emitted_srv ?t') = map fst (emitted_srv ?t) @ [To k]"
        and ss: "userSessions_srv ?t' = userSessions_srv ?t"
        and us: "users_srv ?t' = users_srv ?t"
        using payout_one_srv_lose[where s="?t" and e=e and flts=flts and k=k and se=se, OF nw fs]
        by simp_all
      have j3: "map fst (emitted_srv ?t') =
          map fst (emitted_srv s) @ map To (recipients_srv (userSessions_srv s) (es @ [e]))"
        using i3 by (simp add: em r)
      have j4: "\<forall>e'\<in>set (es @ [e]). \<forall>k'. first_key (userSessions_srv s) (fst e') = Some k' \<longrightarrow>
            (\<exists>se'. map_of (userSessions_srv ?t') k' = Some se' \<and> userId se' = fst e' \<and>
               (0 < obj_get (fst (snd e')) (winning_key ?w) \<longrightarrow>
                  (\<forall>n b. users_srv ?t' (fst e') = Some (n, b) \<longrightarrow> balance se' = b)))"
      proof (intro ballI allI impI)
        fix e' k' assume a: "e' \<in> set (es @ [e])"
          and b: "first_key (userSessions_srv s) (fst e') = Some k'"
        show "\<exists>se'. map_of (userSessions_srv ?t') k' = Some se' \<and> userId se' = fst e' \<and>
               (0 < obj_get (fst (snd e')) (winning_key ?w) \<longrightarrow>
                  (\<forall>n b. users_srv ?t' (fst e') = Some (n, b) \<longrightarrow> balance se' = b))"
        proof (cases "e' = e")
          case True
          then have "k' = k" using b Some by simp
          then show ?thesis using ms False True by (simp add: ss)
        next
          case ne: False
          then have "e' \<in> set es" using a by auto
          then show ?thesis using i4 b by (simp add: ss us)
        qed
      qed
      have j5: "\<forall>k'. (\<forall>e'\<in>set (es @ [e]). first_key (userSessions_srv s) (fst e') \<noteq> Some k') \<longrightarrow>
            map_of (userSessions_srv ?t') k' = map_of (userSessions_srv s) k'"
        using i5 by (simp add: ss)
      have j1: "session_users (userSessions_srv ?t') = session_users (userSessions_srv s)"
        and j2: "distinct (map fst (userSessions_srv ?t'))"
        using i1 i2 by (simp_all add: ss)
      show ?thesis
        unfolding step using j0 ja j1 j2 j3 j4 j5 by blast
    next
      case True
      have yw: "0 < obj_get (fst (snd e)) (winning_key (winningLine_srv (currentRound_srv ?t)))"
        using True by (simp add: i0)
      obtain nb where nb: "map fst (emitted_srv ?t') = map fst (emitted_srv ?t) @ [To k]"
        "userSessions_srv ?t' = AList.update k (se\<lparr>balance := nb\<rparr>) (userSessions_srv ?t)"
        "\<forall>n b. users_srv ?t' ?uid = Some (n, b) \<longrightarrow> nb = b"
        using payout_one_srv_win[where s="?t" and e=e and flts=flts and k=k and se=se,
            OF he(1) hu yw fs]
        by auto
      have j1: "session_users (userSessions_srv ?t') = session_users (userSessions_srv s)"
        using session_users_update[OF ms(1), of "se\<lparr>balance := nb\<rparr>"] i1 by (simp add: nb(2))
      have j2: "distinct (map fst (userSessions_srv ?t'))"
        using i2 by (simp add: nb(2) distinct_update)
      have j3: "map fst (emitted_srv ?t') =
          map fst (emitted_srv s) @ map To (recipients_srv (userSessions_srv s) (es @ [e]))"
        using i3 by (simp add: nb(1) r)
      have j4: "\<forall>e'\<in>set (es @ [e]). \<forall>k'. first_key (userSessions_srv s) (fst e') = Some k' \<longrightarrow>
            (\<exists>se'. map_of (userSessions_srv ?t') k' = Some se' \<and> userId se' = fst e' \<and>
               (0 < obj_get (fst (snd e')) (winning_key ?w) \<longrightarrow>
                  (\<forall>n b. users_srv ?t' (fst e') = Some (n, b) \<longrightarrow> balance se' = b)))"
      proof (intro ballI allI impI)
        fix e' k' assume a: "e' \<in> set (es @ [e])"
          and b: "first_key (userSessions_srv s) (fst e') = Some k'"
        show "\<exists>se'. map_of (userSessions_srv ?t') k' = Some se' \<and> userId se' = fst e' \<and>
               (0 < obj_get (fst (snd e')) (winning_key ?w) \<longrightarrow>
                  (\<forall>n b. users_srv ?t' (fst e') = Some (n, b) \<longrightarrow> balance se' = b))"
        proof (cases "fst e' = ?uid")
          case True
          then have "k' = k" using b Some by simp
          then show ?thesis
            using nb(3) ms(2) True by (simp add: nb(2) update_conv')
        next
          case False
          then have "e' \<in> set es" using a by auto
          then obtain se' where se': "map_of (userSessions_srv ?t) k' = Some se'"
            "userId se' = fst e'"
            "0 < obj_get (fst (snd e')) (winning_key ?w) \<longrightarrow>
               (\<forall>n b. users_srv ?t (fst e') = Some (n, b) \<longrightarrow> balance se' = b)"
            using i4 b by blast
          have "k' \<noteq> k" using se'(1,2) ms False by auto
          moreover have "users_srv ?t' (fst e') = users_srv ?t (fst e')"
            by (rule payout_one_srv_other_user[OF False])
          ultimately show ?thesis using se' by (simp add: nb(2) update_conv')
        qed
      qed
      have j5: "\<forall>k'. (\<forall>e'\<in>set (es @ [e]). first_key (userSessions_srv s) (fst e') \<noteq> Some k') \<longrightarrow>
            map_of (userSessions_srv ?t') k' = map_of (userSessions_srv s) k'"
      proof (intro allI impI)
        fix k' assume a: "\<forall>e'\<in>set (es @ [e]). first_key (userSessions_srv s) (fst e') \<noteq> Some k'"
        then have "k' \<noteq> k" using Some by auto
        moreover have "map_of (userSessions_srv ?t) k' = map_of (userSessions_srv s) k'"
          using i5 a by simp
        ultimately show "map_of (userSessions_srv ?t') k' = map_of (userSessions_srv s) k'"
          by (simp add: nb(2) update_conv')
      qed
      show ?thesis
        unfolding step using j0 ja j1 j2 j3 j4 j5 by blast
    qed
  qed
qed

lemma srv_two_eval: "srv_two =
   \<lparr> currentRound_srv = \<lparr> id_srv = 1000000, startTime_srv = 1000000, freezeTime_srv = 1025000,
       endTime_srv = 1030000, nextRoundTime_srv = 1033000, isBettingOpen = False,
       winningLine_srv = Some 3, finalBets_srv = [(1, [(''line3'', 100)], 100)] \<rparr>,
     userSessions_srv =
       [(''sockA'', \<lparr> userId = 1, username = ''alice'', balance = 1000, pendingBets = [] \<rparr>),
        (''sockB'', \<lparr> userId = 1, username = ''alice'', balance = 900, pendingBets = [] \<rparr>)],
     users_srv = demo_users(1 := Some (''alice'', 900)),
     transactions_srv = [\<lparr> tx_user = 1, tx_amount = 100, tx_type = Bet, tx_descr = BetOn ''line3'' \<rparr>],
     game_rounds_srv = [],
     emitted_srv = [(To ''sockA'', UserData 1000 1), (To ''sockB'', UserData 1000 1),
       (To ''sockB'', PendingBetUpdated ''3'' 100 1000), (Broadcast, FreezeBets_srv 1000000),
       (To ''sockB'', FinalBetsSubmitted [(''line3'', 100)] 900),
       (Broadcast, AnnounceWinner 3 1000000)] \<rparr>"
  by (simp add: srv_two_def announceWinner_def submit_final_bets_srv_def freezeBets_def
      update_pending_bet_def authenticate_srv_def init_srv_def GameRound_def emit_srv_def
      demo_users_def bet3_def obj_get_def sum_values_def add_balance_def bet_entries_srv_def
      draw_line_def Let_def)

lemma srv_two_process:
  "response_srv srv_two (processRoundResults srv_two (\<lambda>_. NoFault)) =
     [(To ''sockA'', RoundEnd 1000000 (Some 3) 200 1100)]"
  "users_srv (processRoundResults srv_two (\<lambda>_. NoFault)) 1 = Some (''alice'', 1100)"
  "userSessions_srv (processRoundResults srv_two (\<lambda>_. NoFault)) =
     [(''sockA'', \<lparr> userId = 1, username = ''alice'', balance = 1100, pendingBets = [] \<rparr>),
      (''sockB'', \<lparr> userId = 1, username = ''alice'', balance = 900, pendingBets = [] \<rparr>)]"
  by (simp_all add: processRoundResults_def payout_one_srv_def srv_two_eval Let_def
      winning_key_def line_key_def obj_get_def add_balance_def first_session_def emit_srv_def
      response_srv_def)

text \<open>
  C9. The settlement of a round in \<^verbatim>\<open>game/luckyFive.js\<close> (state \<open>s\<close>, round \<open>g\<close>), on a
  session map that holds each connection once, for finalized entries that carry a user, and
  when no database call of a payout fails: the messages it sends are one targeted message for
  each finalized entry whose user has a session, in the order of the entries, each to the
  first connection of that user in the order of the session map, followed by the broadcast;
  after the settlement the session of that connection holds the balance of the user's account
  as its cached balance; the session of a connection that is not the first of the user of a
  finalized entry is left as it was, whatever the number of connections of that user; and the
  session map keeps its connections in their order. The same holds of one run of
  \<^verbatim>\<open>processRoundResults()\<close> of \<^verbatim>\<open>src/server.js\<close> (state \<open>t\<close>), when no database call
  fails and the accounts of the finalized entries exist, with these differences: there is no
  broadcast, an entry that wins nothing is notified too, and the cached balance of the first
  connection is set to the balance of the account for the entries that win.
\<close>

theorem notification_first_session_only:
  assumes "distinct (map fst (userSessions s))" "\<forall>k. flts k = NoFault"
    "\<forall>e\<in>set (finalBets (rounds s g)). s_userId (snd e) \<noteq> 0"
    "distinct (map fst (userSessions_srv t))" "\<forall>uid. dflts uid = NoFault"
    "\<forall>e\<in>set (finalBets_srv (currentRound_srv t)). users_srv t (fst e) \<noteq> None"
  shows "map fst (response s (settle s g u now pflt flts)) =
           map To (recipients (userSessions s) (finalBets (rounds s g))) @ [Broadcast] \<and>
     (\<forall>e\<in>set (finalBets (rounds s g)). \<forall>k.
        first_key (userSessions s) (s_userId (snd e)) = Some k \<longrightarrow>
          (\<exists>se. map_of (userSessions (settle s g u now pflt flts)) k = Some se \<and>
             userId se = s_userId (snd e) \<and>
             (\<forall>n b. users (settle s g u now pflt flts) (s_userId (snd e)) = Some (n, b) \<longrightarrow>
                balance se = b))) \<and>
     (\<forall>k. (\<forall>e\<in>set (finalBets (rounds s g)).
              first_key (userSessions s) (s_userId (snd e)) \<noteq> Some k) \<longrightarrow>
        map_of (userSessions (settle s g u now pflt flts)) k = map_of (userSessions s) k) \<and>
     map fst (userSessions (settle s g u now pflt flts)) = map fst (userSessions s) \<and>
     map fst (response_srv t (processRoundResults t dflts)) =
           map To (recipients_srv (userSessions_srv t) (finalBets_srv (currentRound_srv t))) \<and>
     (\<forall>e\<in>set (finalBets_srv (currentRound_srv t)). \<forall>k.
        first_key (userSessions_srv t) (fst e) = Some k \<longrightarrow>
          (\<exists>se. map_of (userSessions_srv (processRoundResults t dflts)) k = Some se \<and>
             userId se = fst e \<and>
             (0 < obj_get (fst (snd e)) (winning_key (winningLine_srv (currentRound_srv t))) \<longrightarrow>
                (\<forall>n b. users_srv (processRoundResults t dflts) (fst e) = Some (n, b) \<longrightarrow>
                   balance se = b)))) \<and>
     (\<forall>k. (\<forall>e\<in>set (finalBets_srv (currentRound_srv t)).
              first_key (userSessions_srv t) (fst e) \<noteq> Some k) \<longrightarrow>
        map_of (userSessions_srv (processRoundResults t dflts)) k = map_of (userSessions_srv t) k) \<and>
     map fst (userSessions_srv (processRoundResults t dflts)) = map fst (userSessions_srv t)"
proof -
  let ?s1 = "s\<lparr>rounds := (rounds s)(g := (rounds s g)\<lparr>winningLine := Some (draw_line u)\<rparr>)\<rparr>"
  let ?s2 = "persistRoundResult ?s1 g pflt"
  let ?es = "finalBets (rounds s g)"
  let ?s3 = "foldl (payout_one g (draw_line u) now flts) ?s2 ?es"
  have f: "finalBets (rounds ?s2 g) = ?es" by (simp add: persistRoundResult_rounds)
  have p: "userSessions ?s2 = userSessions s" "emitted ?s2 = emitted s"
    by (simp_all add: persistRoundResult_fields)
  have e: "settle s g u now pflt flts =
      emit Broadcast (RoundResult (result_round_id (rounds ?s3 g)) (draw_line u) now) ?s3"
    by (simp add: settle_def Let_def f)
  have d2: "distinct (map fst (userSessions ?s2))" using assms(1) by (simp add: p)
  have a: "\<forall>e\<in>set ?es. flts (fst e) = NoFault \<and> s_userId (snd e) \<noteq> 0"
    using assms(2,3) by simp
  note l = payout_loop_exact[OF d2 a, of g "draw_line u" now, unfolded p]
  have l1: "session_users (userSessions ?s3) = session_users (userSessions s)"
    and l3: "map fst (emitted ?s3) = map fst (emitted s) @ map To (recipients (userSessions s) ?es)"
    and l4: "\<forall>e\<in>set ?es. \<forall>k. first_key (userSessions s) (s_userId (snd e)) = Some k \<longrightarrow>
            (\<exists>se. map_of (userSessions ?s3) k = Some se \<and> userId se = s_userId (snd e) \<and>
               (\<forall>n b. users ?s3 (s_userId (snd e)) = Some (n, b) \<longrightarrow> balance se = b))"
    and l5: "\<forall>k. (\<forall>e\<in>set ?es. first_key (userSessions s) (s_userId (snd e)) \<noteq> Some k) \<longrightarrow>
            map_of (userSessions ?s3) k = map_of (userSessions s) k"
    using l by blast+
  have r1: "map fst (response s (settle s g u now pflt flts)) =
      drop (length (map fst (emitted s))) (map fst (emitted (settle s g u now pflt flts)))"
    by (simp add: response_def drop_map)
  have r2: "map fst (emitted (settle s g u now pflt flts)) = map fst (emitted ?s3) @ [Broadcast]"
    by (simp add: e emit_fields)
  have c1: "map fst (response s (settle s g u now pflt flts)) =
      map To (recipients (userSessions s) ?es) @ [Broadcast]"
    unfolding r1 r2 l3 by simp
  have "map fst (session_users (userSessions ?s3)) = map fst (session_users (userSessions s))"
    using l1 by simp
  then have c4: "map fst (userSessions (settle s g u now pflt flts)) = map fst (userSessions s)"
    by (simp add: e emit_fields session_users_def comp_def case_prod_unfold)
  have c2: "\<forall>e\<in>set ?es. \<forall>k. first_key (userSessions s) (s_userId (snd e)) = Some k \<longrightarrow>
          (\<exists>se. map_of (userSessions (settle s g u now pflt flts)) k = Some se \<and>
             userId se = s_userId (snd e) \<and>
             (\<forall>n b. users (settle s g u now pflt flts) (s_userId (snd e)) = Some (n, b) \<longrightarrow>
                balance se = b))"
    using l4 by (simp add: e emit_fields)
  have c3: "\<forall>k. (\<forall>e\<in>set ?es. first_key (userSessions s) (s_userId (snd e)) \<noteq> Some k) \<longrightarrow>
        map_of (userSessions (settle s g u now pflt flts)) k = map_of (userSessions s) k"
    using l5 by (simp add: e emit_fields)
  let ?fs = "finalBets_srv (currentRound_srv t)"
  let ?t' = "processRoundResults t dflts"
  have b: "\<forall>e\<in>set ?fs. dflts (fst e) = NoFault \<and> users_srv t (fst e) \<noteq> None"
    using assms(5,6) by simp
  note m = payout_loop_srv_exact[OF assms(4) b, folded processRoundResults_def]
  have m1: "session_users (userSessions_srv ?t') = session_users (userSessions_srv t)"
    and m3: "map fst (emitted_srv ?t') =
        map fst (emitted_srv t) @ map To (recipients_srv (userSessions_srv t) ?fs)"
    and m4: "\<forall>e\<in>set ?fs. \<forall>k. first_key (userSessions_srv t) (fst e) = Some k \<longrightarrow>
          (\<exists>se. map_of (userSessions_srv ?t') k = Some se \<and> userId se = fst e \<and>
             (0 < obj_get (fst (snd e)) (winning_key (winningLine_srv (currentRound_srv t))) \<longrightarrow>
                (\<forall>n b. users_srv ?t' (fst e) = Some (n, b) \<longrightarrow> balance se = b)))"
    and m5: "\<forall>k. (\<forall>e\<in>set ?fs. first_key (userSessions_srv t) (fst e) \<noteq> Some k) \<longrightarrow>
        map_of (userSessions_srv ?t') k = map_of (userSessions_srv t) k"
    using m by blast+
  have q1: "map fst (response_srv t ?t') =
      drop (length (map fst (emitted_srv t))) (map fst (emitted_srv ?t'))"
    by (simp add: response_srv_def drop_map)
  have k1: "map fst (response_srv t ?t') = map To (recipients_srv (userSessions_srv t) ?fs)"
    unfolding q1 m3 by simp
  have "map fst (session_users (userSessions_srv ?t')) =
      map fst (session_users (userSessions_srv t))"
    using m1 by simp
  then have k4: "map fst (userSessions_srv ?t') = map fst (userSessions_srv t)"
    by (simp add: session_users_def comp_def case_prod_unfold)
  show ?thesis
    using c1 c2 c3 c4 k1 m4 m5 k4 by blast
qed

text \<open>The theorem at the example runs with two connections of one user, the second of which
  finalized 100 on line 3, which is drawn. In \<^verbatim>\<open>game/luckyFive.js\<close> the targeted message of
  the settlement goes to the first connection, whose session then holds the new balance of the
  account, 1400, and the session of the second keeps its cached balance of 900. In
  \<^verbatim>\<open>src/server.js\<close> the message of \<^verbatim>\<open>processRoundResults()\<close> goes to the first connection,
  whose session then holds the new balance 1100, and the session of the second keeps 900.\<close>

theorem notification_first_session_only_witness:
  "distinct (map fst (userSessions demo_two)) \<and>
   map fst (userSessions demo_two) = [''sockA'', ''sockB''] \<and>
   finalBets (rounds demo_two 0) =
     [(''sockB'', \<lparr> s_userId = 1, s_bets = [(''line3'', 100)], s_totalAmount = 100 \<rparr>)] \<and>
   first_key (userSessions demo_two) 1 = Some ''sockA'' \<and>
   recipients (userSessions demo_two) (finalBets (rounds demo_two 0)) = [''sockA''] \<and>
   map fst (response demo_two (settle demo_two 0 (1/2) 1030000 NoFault (\<lambda>_. NoFault))) =
     [To ''sockA'', Broadcast] \<and>
   response demo_two (settle demo_two 0 (1/2) 1030000 NoFault (\<lambda>_. NoFault)) =
     [(To ''sockA'', RoundResultTo 1 3 500 1400 1030000), (Broadcast, RoundResult 1 3 1030000)] \<and>
   users (settle demo_two 0 (1/2) 1030000 NoFault (\<lambda>_. NoFault)) 1 = Some (''alice'', 1400) \<and>
   (\<exists>se. map_of (userSessions (settle demo_two 0 (1/2) 1030000 NoFault (\<lambda>_. NoFault))) ''sockA'' =
       Some se \<and> userId se = 1 \<and> balance se = 1400) \<and>
   map_of (userSessions (settle demo_two 0 (1/2) 1030000 NoFault (\<lambda>_. NoFault))) ''sockB'' =
     Some \<lparr> userId = 1, username = ''alice'', balance = 900 \<rparr> \<and>
   map fst (userSessions_srv srv_two) = [''sockA'', ''sockB''] \<and>
   finalBets_srv (currentRound_srv srv_two) = [(1, [(''line3'', 100)], 100)] \<and>
   winningLine_srv (currentRound_srv srv_two) = Some 3 \<and>
   users_srv srv_two 1 = Some (''alice'', 900) \<and>
   first_key (userSessions_srv srv_two) 1 = Some ''sockA'' \<and>
   recipients_srv (userSessions_srv srv_two) (finalBets_srv (currentRound_srv srv_two)) =
     [''sockA''] \<and>
   map fst (response_srv srv_two (processRoundResults srv_two (\<lambda>_. NoFault))) = [To ''sockA''] \<and>
   response_srv srv_two (processRoundResults srv_two (\<lambda>_. NoFault)) =
     [(To ''sockA'', RoundEnd 1000000 (Some 3) 200 1100)] \<and>
   users_srv (processRoundResults srv_two (\<lambda>_. NoFault)) 1 = Some (''alice'', 1100) \<and>
   (\<exists>se. map_of (userSessions_srv (processRoundResults srv_two (\<lambda>_. NoFault))) ''sockA'' = Some se \<and>
       userId se = 1 \<and> balance se = 1100) \<and>
   map_of (userSessions_srv (processRoundResults srv_two (\<lambda>_. NoFault))) ''sockB'' =
     Some \<lparr> userId = 1, username = ''alice'', balance = 900, pendingBets = [] \<rparr>"
proof -
  have d: "distinct (map fst (userSessions demo_two))"
    "map fst (userSessions demo_two) = [''sockA'', ''sockB'']"
    by (simp_all add: demo_two_eval)
  have nf: "\<forall>k::sockid. (\<lambda>_. NoFault) k = NoFault" by simp
  have fb: "finalBets (rounds demo_two 0) =
     [(''sockB'', \<lparr> s_userId = 1, s_bets = [(''line3'', 100)], s_totalAmount = 100 \<rparr>)]"
    by (simp add: demo_two_eval)
  have u0: "\<forall>e\<in>set (finalBets (rounds demo_two 0)). s_userId (snd e) \<noteq> 0"
    by (simp add: fb)
  have fk: "first_key (userSessions demo_two) 1 = Some ''sockA''"
    "first_key (userSessions demo_two) (Suc 0) = Some ''sockA''"
    by (simp_all add: demo_two_eval)
  have rc: "recipients (userSessions demo_two) (finalBets (rounds demo_two 0)) = [''sockA'']"
    using fk by (simp add: fb recipients_def map_filter_def)
  have sb: "map_of (userSessions demo_two) ''sockB'' =
      Some \<lparr> userId = 1, username = ''alice'', balance = 900 \<rparr>"
    by (simp add: demo_two_eval)
  have sd: "distinct (map fst (userSessions_srv srv_two))"
    "map fst (userSessions_srv srv_two) = [''sockA'', ''sockB'']"
    by (simp_all add: srv_two_eval)
  have nu: "\<forall>uid::nat. (\<lambda>_. NoFault) uid = NoFault" by simp
  have sf: "finalBets_srv (currentRound_srv srv_two) = [(1, [(''line3'', 100)], 100)]"
    "winningLine_srv (currentRound_srv srv_two) = Some 3"
    "users_srv srv_two 1 = Some (''alice'', 900)"
    "users_srv srv_two (Suc 0) = Some (''alice'', 900)"
    by (simp_all add: srv_two_eval)
  have ue: "\<forall>e\<in>set (finalBets_srv (currentRound_srv srv_two)). users_srv srv_two (fst e) \<noteq> None"
    using sf(4) by (simp add: sf(1))
  have sk: "first_key (userSessions_srv srv_two) 1 = Some ''sockA''"
    "first_key (userSessions_srv srv_two) (Suc 0) = Some ''sockA''"
    by (simp_all add: srv_two_eval)
  have sr: "recipients_srv (userSessions_srv srv_two) (finalBets_srv (currentRound_srv srv_two)) =
      [''sockA'']"
    using sk by (simp add: sf(1) recipients_srv_def map_filter_def)
  have ssb: "map_of (userSessions_srv srv_two) ''sockB'' =
      Some \<lparr> userId = 1, username = ''alice'', balance = 900, pendingBets = [] \<rparr>"
    by (simp add: srv_two_eval)
  have o: "0 < obj_get [(''line3'', 100::int)] (winning_key (Some 3))"
    by (simp add: obj_get_def winning_key_def line_key_def)
  note th = notification_first_session_only[OF d(1) nf u0 sd(1) nu ue, of "1/2" 1030000 NoFault]
  have v1: "map fst (response demo_two (settle demo_two 0 (1/2) 1030000 NoFault (\<lambda>_. NoFault))) =
     [To ''sockA'', Broadcast]"
    using th[THEN conjunct1] by (simp add: rc)
  have v2: "\<exists>se. map_of (userSessions (settle demo_two 0 (1/2) 1030000 NoFault (\<lambda>_. NoFault))) ''sockA'' =
       Some se \<and> userId se = 1 \<and> balance se = 1400"
    using th[THEN conjunct2, THEN conjunct1] fk(2) demo_two_settle(2) by (simp add: fb)
  have v3: "map_of (userSessions (settle demo_two 0 (1/2) 1030000 NoFault (\<lambda>_. NoFault))) ''sockB'' =
     Some \<lparr> userId = 1, username = ''alice'', balance = 900 \<rparr>"
    using th[THEN conjunct2, THEN conjunct2, THEN conjunct1] fk(2) sb by (simp add: fb)
  note ts = th[THEN conjunct2, THEN conjunct2, THEN conjunct2, THEN conjunct2]
  have w1: "map fst (response_srv srv_two (processRoundResults srv_two (\<lambda>_. NoFault))) = [To ''sockA'']"
    using ts[THEN conjunct1] by (simp add: sr)
  have w2: "\<exists>se. map_of (userSessions_srv (processRoundResults srv_two (\<lambda>_. NoFault))) ''sockA'' = Some se \<and>
       userId se = 1 \<and> balance se = 1100"
    using ts[THEN conjunct2, THEN conjunct1] sk(2) srv_two_process(2) o by (simp add: sf(1,2))
  have w3: "map_of (userSessions_srv (processRoundResults srv_two (\<lambda>_. NoFault))) ''sockB'' =
     Some \<lparr> userId = 1, username = ''alice'', balance = 900, pendingBets = [] \<rparr>"
    using ts[THEN conjunct2, THEN conjunct2, THEN conjunct1] sk(2) ssb by (simp add: sf(1))
  have a1: "distinct (map fst (userSessions demo_two)) \<and>
   map fst (userSessions demo_two) = [''sockA'', ''sockB''] \<and>
   finalBets (rounds demo_two 0) =
     [(''sockB'', \<lparr> s_userId = 1, s_bets = [(''line3'', 100)], s_totalAmount = 100 \<rparr>)] \<and>
   first_key (userSessions demo_two) 1 = Some ''sockA'' \<and>
   recipients (userSessions demo_two) (finalBets (rounds demo_two 0)) = [''sockA'']"
    using d fb fk(1) rc by simp
  show ?thesis
    using a1 v1 demo_two_settle(1,2) v2 v3 sd(2) sf(1,2,3) sk(1) sr w1 srv_two_process(1,2) w2 w3
    by blast
qed

section \<open>Claim on the missing validation of \<^verbatim>\<open>place_bet\<close>\<close>













end
